theory Spec2Isabelle
  imports Complex_Main
begin

section \<open>The resume builder's form state (src/components/ResumeBuilder.tsx)\<close>

subsection \<open>JavaScript values used by the component\<close>

text \<open>
  Every object the component handles is a JavaScript object whose property values are
  strings. The handlers write properties through a computed key
  (\<^verbatim>\<open>{ ...obj, [field]: value }\<close> with \<^verbatim>\<open>field: string\<close>), so an object is modelled
  as a finite map from property names to strings, not as a closed record: a property
  that is not there reads as \<open>None\<close> (JavaScript's \<^verbatim>\<open>undefined\<close>).
  A string is a list of characters, and a character is a code unit below 256.
\<close>

type_synonym js_object = "string \<rightharpoonup> string"

text \<open>Truthiness of a property read: \<^verbatim>\<open>undefined\<close> and the empty string are falsy.\<close>

definition truthy :: "string option \<Rightarrow> bool" where
  "truthy v = (case v of None \<Rightarrow> False | Some s \<Rightarrow> s \<noteq> [])"

text \<open>The spread with a computed key, \<^verbatim>\<open>{ ...obj, [field]: value }\<close>.\<close>

definition spread_set :: "js_object \<Rightarrow> string \<Rightarrow> string \<Rightarrow> js_object" where
  "spread_set obj field v = obj(field \<mapsto> v)"

text \<open>
  \<^verbatim>\<open>Array.prototype.map\<close> and \<^verbatim>\<open>Array.prototype.filter\<close> with the callback's index
  argument. The index the handlers compare with (\<^verbatim>\<open>i === index\<close>) is a JavaScript
  number supplied by the caller; it is modelled as an \<open>int\<close>, so that a negative index is
  an input of the model (a number that is not an integer equals no position either).
\<close>

definition array_map :: "('a \<Rightarrow> nat \<Rightarrow> 'b) \<Rightarrow> 'a list \<Rightarrow> 'b list" where
  "array_map f xs = map (\<lambda>(i, x). f x i) (enumerate 0 xs)"

definition array_filter :: "('a \<Rightarrow> nat \<Rightarrow> bool) \<Rightarrow> 'a list \<Rightarrow> 'a list" where
  "array_filter p xs = map snd (filter (\<lambda>(i, x). p x i) (enumerate 0 xs))"

text \<open>An index that addresses no entry of the array.\<close>

definition out_of_range :: "int \<Rightarrow> 'a list \<Rightarrow> bool" where
  "out_of_range index xs = (index < 0 \<or> int (length xs) \<le> index)"

text \<open>
  \<^verbatim>\<open>String.prototype.trim\<close> removes, at both ends, the code units that ECMAScript calls
  WhiteSpace or LineTerminator: U+0009 to U+000D, U+0020, U+00A0, U+1680, U+2000 to U+200A,
  U+2028, U+2029, U+202F, U+205F, U+3000 and U+FEFF. Of these, a string of the model can
  hold 9 to 13, 32 and 160 (the no-break space).
\<close>

definition white_space_code :: "nat \<Rightarrow> bool" where
  "white_space_code n =
     (n \<in> set [0x09, 0x0A, 0x0B, 0x0C, 0x0D, 0x20, 0xA0, 0x1680, 0x2028, 0x2029, 0x202F,
                0x205F, 0x3000, 0xFEFF]
      \<or> (0x2000 \<le> n \<and> n \<le> 0x200A))"

definition is_space :: "char \<Rightarrow> bool" where
  "is_space c = white_space_code (of_char c)"

definition trim :: "string \<Rightarrow> string" where
  "trim s = rev (dropWhile is_space (rev (dropWhile is_space s)))"

subsection \<open>ResumeData\<close>

text \<open>
  The type \<^verbatim>\<open>ResumeData\<close> is imported from \<^verbatim>\<open>../utils/pdfGenerator\<close>; its shape is read off
  the initial value of \<^verbatim>\<open>useState<ResumeData>\<close> and off the handlers. The property
  \<^verbatim>\<open>projects\<close> is optional: every handler reads it as \<^verbatim>\<open>prev.projects || []\<close>.
\<close>

record ResumeData =
  personalInfo :: js_object
  experience :: "js_object list"
  education :: "js_object list"
  skills :: "string list"
  projects :: "js_object list option"

text \<open>\<^verbatim>\<open>xs || []\<close> for an optional array (an array, even an empty one, is truthy).\<close>

definition or_empty :: "'a list option \<Rightarrow> 'a list" where
  "or_empty xs = (case xs of None \<Rightarrow> [] | Some ys \<Rightarrow> ys)"

definition personal_fields :: "string list" where
  "personal_fields =
     [''name'', ''email'', ''phone'', ''location'', ''summary'', ''linkedin'', ''github'']"

definition initial_resumeData :: ResumeData where
  "initial_resumeData =
     \<lparr> personalInfo = map_of (map (\<lambda>k. (k, [])) personal_fields),
       experience = [],
       education = [],
       skills = [],
       projects = Some [] \<rparr>"

definition empty_experience :: js_object where
  "empty_experience =
     map_of [(''title'', []), (''company'', []), (''duration'', []), (''description'', [])]"

definition empty_education :: js_object where
  "empty_education =
     map_of [(''degree'', []), (''institution'', []), (''year'', []), (''gpa'', [])]"

definition empty_project :: js_object where
  "empty_project =
     map_of [(''name'', []), (''description'', []), (''technologies'', []), (''link'', [])]"

subsection \<open>Completion percentage\<close>

text \<open>
  \<^verbatim>\<open>getCompletionPercentage\<close> reads the \<^verbatim>\<open>resumeData\<close> of the render it belongs to.
  \<^verbatim>\<open>Math.round(x)\<close> is \<open>\<lfloor>x + 1/2\<rfloor>\<close>, which is \<^const>\<open>round\<close>; the quotient is computed
  exactly here (the eight values the double-precision quotient can take are far from a
  rounding boundary).
\<close>

definition getCompletionPercentage :: "ResumeData \<Rightarrow> int" where
  "getCompletionPercentage resumeData =
     (let completed = (0::nat);
          total = (7::nat);
          completed = (if truthy (personalInfo resumeData ''name'') then completed + 1 else completed);
          completed = (if truthy (personalInfo resumeData ''email'') then completed + 1 else completed);
          completed = (if truthy (personalInfo resumeData ''summary'') then completed + 1 else completed);
          completed = (if length (skills resumeData) > 0 then completed + 1 else completed);
          completed = (if length (experience resumeData) > 0 then completed + 1 else completed);
          completed = (if length (education resumeData) > 0 then completed + 1 else completed);
          completed = (if length (or_empty (projects resumeData)) > 0 then completed + 1 else completed)
      in round ((real completed / real total) * 100))"

subsection \<open>The platform: JSON and the browser's local storage\<close>

text \<open>
  \<^verbatim>\<open>JSON.stringify\<close>, \<^verbatim>\<open>JSON.parse\<close> and \<^verbatim>\<open>localStorage\<close> belong to the browser, not to the
  repository; the component is modelled over them. \<open>JSON_parse\<close> returns \<open>None\<close> where
  \<^verbatim>\<open>JSON.parse\<close> throws a SyntaxError; \<open>quota_exceeded\<close> says for which writes
  \<^verbatim>\<open>localStorage.setItem\<close> throws (the store's capacity is its own business).
\<close>

record platform =
  JSON_stringify :: "ResumeData \<Rightarrow> string"
  JSON_parse :: "string \<Rightarrow> ResumeData option"
  quota_exceeded :: "(string \<rightharpoonup> string) \<Rightarrow> string \<Rightarrow> string \<Rightarrow> bool"

datatype js_exception = QuotaExceededError

subsection \<open>Component state, timers and effects\<close>

datatype toast = ToastSuccess string | ToastError string

text \<open>
  A callback passed to \<^verbatim>\<open>setTimeout\<close>. The autosave effect passes
  \<^verbatim>\<open>() => saveToLocalStorage()\<close>, a closure over the \<^verbatim>\<open>resumeData\<close> of the render that
  created it; \<^verbatim>\<open>saveToLocalStorage\<close> passes \<^verbatim>\<open>() => setIsSaving(false)\<close>.
\<close>

datatype callback = SaveCallback ResumeData | ClearSavingCallback

datatype timer = Timer (timer_id: nat) (due: nat) (callback: callback)

text \<open>
  The state of the component: the \<^verbatim>\<open>useState\<close> cells the handlers touch, the toasts
  and console errors emitted so far, the local storage, the calls made to
  \<^verbatim>\<open>localStorage.setItem\<close> (time, key, value), the clock, the pending timers in the
  order of their creation, and the timer the autosave effect's cleanup will clear.
\<close>

record builder_state =
  resumeData :: ResumeData
  showImporter :: bool
  isSaving :: bool
  lastSaved :: "nat option"
  toasts :: "toast list"
  console_errors :: "string list"
  localStorage :: "string \<rightharpoonup> string"
  setItem_calls :: "(nat \<times> string \<times> string) list"
  clock :: nat
  timers :: "timer list"
  next_timer_id :: nat
  autosave_handle :: "nat option"

definition setTimeout :: "callback \<Rightarrow> nat \<Rightarrow> builder_state \<Rightarrow> nat \<times> builder_state" where
  "setTimeout cb delay st =
     (next_timer_id st,
      st\<lparr> timers := timers st @ [Timer (next_timer_id st) (clock st + delay) cb],
          next_timer_id := next_timer_id st + 1 \<rparr>)"

definition clearTimeout :: "nat \<Rightarrow> builder_state \<Rightarrow> builder_state" where
  "clearTimeout h st = st\<lparr> timers := filter (\<lambda>t. timer_id t \<noteq> h) (timers st) \<rparr>"

text \<open>
  The autosave effect, \<^verbatim>\<open>useEffect(..., [resumeData])\<close>: when \<^verbatim>\<open>resumeData\<close> has changed,
  the cleanup of the previous run clears its timer, then a new timer of 2000 is set whose
  callback saves the \<^verbatim>\<open>resumeData\<close> of this render.
\<close>

definition autosave_effect :: "builder_state \<Rightarrow> builder_state" where
  "autosave_effect st =
     (let st = (case autosave_handle st of None \<Rightarrow> st | Some h \<Rightarrow> clearTimeout h st);
          (h, st) = setTimeout (SaveCallback (resumeData st)) 2000 st
      in st\<lparr> autosave_handle := Some h \<rparr>)"

text \<open>
  \<^verbatim>\<open>setResumeData(updater)\<close>: every updater of the component builds a new object, so the
  state changes identity and the autosave effect runs again.
\<close>

definition setResumeData :: "(ResumeData \<Rightarrow> ResumeData) \<Rightarrow> builder_state \<Rightarrow> builder_state" where
  "setResumeData updater st = autosave_effect (st\<lparr> resumeData := updater (resumeData st) \<rparr>)"

definition localStorage_setItem ::
  "platform \<Rightarrow> string \<Rightarrow> string \<Rightarrow> builder_state \<Rightarrow> js_exception option \<times> builder_state" where
  "localStorage_setItem plat key v st =
     (let st' = st\<lparr> setItem_calls := setItem_calls st @ [(clock st, key, v)] \<rparr>
      in if quota_exceeded plat (localStorage st) key v then (Some QuotaExceededError, st')
         else (None, st'\<lparr> localStorage := (localStorage st)(key \<mapsto> v) \<rparr>))"

text \<open>
  \<^verbatim>\<open>saveToLocalStorage\<close> reads the \<^verbatim>\<open>resumeData\<close> of the render it was created in
  (the first argument).
\<close>

definition saveToLocalStorage :: "platform \<Rightarrow> ResumeData \<Rightarrow> builder_state \<Rightarrow> builder_state" where
  "saveToLocalStorage plat rendered st =
     (let st = st\<lparr> isSaving := True \<rparr>
      in case localStorage_setItem plat ''resumeData'' (JSON_stringify plat rendered) st of
           (None, st) \<Rightarrow>
             (let st = st\<lparr> lastSaved := Some (clock st) \<rparr>
              in snd (setTimeout ClearSavingCallback 500 st))
         | (Some error, st) \<Rightarrow>
             (let st = st\<lparr> toasts := toasts st @ [ToastError ''Failed to save data''] \<rparr>
              in st\<lparr> isSaving := False \<rparr>))"

definition loadFromLocalStorage :: "platform \<Rightarrow> builder_state \<Rightarrow> builder_state" where
  "loadFromLocalStorage plat st =
     (case localStorage st ''resumeData'' of
        None \<Rightarrow> st
      | Some saved \<Rightarrow>
          if saved = [] then st
          else (case JSON_parse plat saved of
                  None \<Rightarrow> st\<lparr> console_errors := console_errors st @ [''Failed to load saved data:''] \<rparr>
                | Some parsed \<Rightarrow>
                    (let st = setResumeData (\<lambda>_. parsed) st
                     in st\<lparr> toasts := toasts st @ [ToastSuccess ''Previous data loaded''] \<rparr>)))"

text \<open>The \<^verbatim>\<open>onDataImported\<close> callback given to the importer.\<close>

definition onDataImported :: "ResumeData \<Rightarrow> builder_state \<Rightarrow> builder_state" where
  "onDataImported data st =
     (let st = setResumeData (\<lambda>_. data) st;
          st = st\<lparr> showImporter := False \<rparr>
      in st\<lparr> toasts := toasts st @ [ToastSuccess ''Resume data imported successfully!''] \<rparr>)"

text \<open>
  Mounting the component at time 0 over a given local storage: the state cells take
  their initial values, then the two effects run in the order of their declaration.
\<close>

definition initial_state :: "(string \<rightharpoonup> string) \<Rightarrow> builder_state" where
  "initial_state store =
     \<lparr> resumeData = initial_resumeData, showImporter = False, isSaving = False,
       lastSaved = None, toasts = [], console_errors = [], localStorage = store,
       setItem_calls = [], clock = 0, timers = [], next_timer_id = 0,
       autosave_handle = None \<rparr>"

definition mount :: "platform \<Rightarrow> (string \<rightharpoonup> string) \<Rightarrow> builder_state" where
  "mount plat store = loadFromLocalStorage plat (autosave_effect (initial_state store))"

subsection \<open>The handlers\<close>

definition handlePersonalInfoChange :: "string \<Rightarrow> string \<Rightarrow> builder_state \<Rightarrow> builder_state" where
  "handlePersonalInfoChange field v =
     setResumeData (\<lambda>prev. prev\<lparr> personalInfo := spread_set (personalInfo prev) field v \<rparr>)"

definition addExperience :: "builder_state \<Rightarrow> builder_state" where
  "addExperience =
     setResumeData (\<lambda>prev. prev\<lparr> experience := experience prev @ [empty_experience] \<rparr>)"

definition updateExperience :: "int \<Rightarrow> string \<Rightarrow> string \<Rightarrow> builder_state \<Rightarrow> builder_state" where
  "updateExperience index field v =
     setResumeData (\<lambda>prev. prev\<lparr> experience :=
       array_map (\<lambda>exp i. if int i = index then spread_set exp field v else exp) (experience prev) \<rparr>)"

definition removeExperience :: "int \<Rightarrow> builder_state \<Rightarrow> builder_state" where
  "removeExperience index =
     setResumeData (\<lambda>prev. prev\<lparr> experience :=
       array_filter (\<lambda>_ i. int i \<noteq> index) (experience prev) \<rparr>)"

definition addEducation :: "builder_state \<Rightarrow> builder_state" where
  "addEducation =
     setResumeData (\<lambda>prev. prev\<lparr> education := education prev @ [empty_education] \<rparr>)"

definition updateEducation :: "int \<Rightarrow> string \<Rightarrow> string \<Rightarrow> builder_state \<Rightarrow> builder_state" where
  "updateEducation index field v =
     setResumeData (\<lambda>prev. prev\<lparr> education :=
       array_map (\<lambda>edu i. if int i = index then spread_set edu field v else edu) (education prev) \<rparr>)"

definition removeEducation :: "int \<Rightarrow> builder_state \<Rightarrow> builder_state" where
  "removeEducation index =
     setResumeData (\<lambda>prev. prev\<lparr> education :=
       array_filter (\<lambda>_ i. int i \<noteq> index) (education prev) \<rparr>)"

text \<open>
  \<^verbatim>\<open>addSkill\<close> tests the \<^verbatim>\<open>resumeData\<close> of the render it was created in (the first
  argument) and appends to the state the updater receives.
\<close>

definition addSkill :: "ResumeData \<Rightarrow> string \<Rightarrow> builder_state \<Rightarrow> builder_state" where
  "addSkill rendered skill st =
     (if trim skill \<noteq> [] \<and> trim skill \<notin> set (skills rendered)
      then setResumeData (\<lambda>prev. prev\<lparr> skills := skills prev @ [trim skill] \<rparr>) st
      else st)"

definition removeSkill :: "int \<Rightarrow> builder_state \<Rightarrow> builder_state" where
  "removeSkill index =
     setResumeData (\<lambda>prev. prev\<lparr> skills := array_filter (\<lambda>_ i. int i \<noteq> index) (skills prev) \<rparr>)"

definition addProject :: "builder_state \<Rightarrow> builder_state" where
  "addProject =
     setResumeData (\<lambda>prev. prev\<lparr> projects := Some (or_empty (projects prev) @ [empty_project]) \<rparr>)"

definition updateProject :: "int \<Rightarrow> string \<Rightarrow> string \<Rightarrow> builder_state \<Rightarrow> builder_state" where
  "updateProject index field v =
     setResumeData (\<lambda>prev. prev\<lparr> projects := Some
       (array_map (\<lambda>project i. if int i = index then spread_set project field v else project)
          (or_empty (projects prev))) \<rparr>)"

definition removeProject :: "int \<Rightarrow> builder_state \<Rightarrow> builder_state" where
  "removeProject index =
     setResumeData (\<lambda>prev. prev\<lparr> projects := Some
       (array_filter (\<lambda>_ i. int i \<noteq> index) (or_empty (projects prev))) \<rparr>)"

subsection \<open>Running the timers\<close>

text \<open>
  The browser runs the pending timer with the earliest due time; among timers due at the
  same time, the one created first.
\<close>

fun earliest :: "timer list \<Rightarrow> timer option" where
  "earliest [] = None"
| "earliest (t # ts) =
     (case earliest ts of
        None \<Rightarrow> Some t
      | Some u \<Rightarrow> if due u < due t then Some u else Some t)"

definition run_timer :: "platform \<Rightarrow> timer \<Rightarrow> builder_state \<Rightarrow> builder_state" where
  "run_timer plat tm st =
     (let st = st\<lparr> timers := filter (\<lambda>t. timer_id t \<noteq> timer_id tm) (timers st),
                   clock := max (clock st) (due tm) \<rparr>
      in case callback tm of
           SaveCallback rendered \<Rightarrow> saveToLocalStorage plat rendered st
         | ClearSavingCallback \<Rightarrow> st\<lparr> isSaving := False \<rparr>)"

text \<open>
  A save callback leaves at most one new timer behind (the one that clears
  \<^verbatim>\<open>isSaving\<close>), so running a timer lowers this weight.
\<close>

fun callback_weight :: "callback \<Rightarrow> nat" where
  "callback_weight (SaveCallback _) = 2"
| "callback_weight ClearSavingCallback = 1"

definition pending_weight :: "builder_state \<Rightarrow> nat" where
  "pending_weight st = sum_list (map (\<lambda>t. callback_weight (callback t)) (timers st))"

lemma earliest_mem: "earliest ts = Some tm \<Longrightarrow> tm \<in> set ts"
  by (induction ts arbitrary: tm) (auto split: option.splits if_splits)

lemma weight_filter_le:
  "sum_list (map (\<lambda>t. callback_weight (callback t)) (filter p ts))
     \<le> sum_list (map (\<lambda>t. callback_weight (callback t)) ts)"
  by (induction ts) auto

lemma weight_filter:
  "tm \<in> set ts \<Longrightarrow>
   sum_list (map (\<lambda>t. callback_weight (callback t)) (filter (\<lambda>t. timer_id t \<noteq> timer_id tm) ts))
     + callback_weight (callback tm)
   \<le> sum_list (map (\<lambda>t. callback_weight (callback t)) ts)"
proof (induction ts)
  case Nil
  then show ?case by simp
next
  case (Cons a ts)
  show ?case
  proof (cases "a = tm")
    case True
    then show ?thesis
      using weight_filter_le[of "\<lambda>t. timer_id t \<noteq> timer_id tm" ts] by simp
  next
    case False
    with Cons show ?thesis by auto
  qed
qed

lemma pending_weight_saveToLocalStorage:
  "pending_weight (saveToLocalStorage plat d st) \<le> pending_weight st + 1"
  by (simp add: saveToLocalStorage_def localStorage_setItem_def setTimeout_def
      pending_weight_def Let_def)

lemma run_timer_weight:
  assumes "earliest (timers st) = Some tm"
  shows "pending_weight (run_timer plat tm st) < pending_weight st"
proof -
  let ?st = "st\<lparr> timers := filter (\<lambda>t. timer_id t \<noteq> timer_id tm) (timers st),
                   clock := max (clock st) (due tm) \<rparr>"
  have mem: "tm \<in> set (timers st)"
    using assms by (rule earliest_mem)
  have w: "pending_weight ?st + callback_weight (callback tm) \<le> pending_weight st"
    using weight_filter[OF mem] by (simp add: pending_weight_def)
  show ?thesis
  proof (cases "callback tm")
    case (SaveCallback d)
    have "pending_weight (run_timer plat tm st) \<le> pending_weight ?st + 1"
      using pending_weight_saveToLocalStorage[of plat d ?st]
      by (simp add: run_timer_def SaveCallback)
    with w SaveCallback show ?thesis by simp
  next
    case ClearSavingCallback
    have "pending_weight (run_timer plat tm st) = pending_weight ?st"
      by (simp add: run_timer_def ClearSavingCallback pending_weight_def)
    with w ClearSavingCallback show ?thesis by simp
  qed
qed

text \<open>Letting time pass until \<open>t\<close>: the timers due by then run, in order.\<close>

function advance :: "platform \<Rightarrow> nat \<Rightarrow> builder_state \<Rightarrow> builder_state" where
  "advance plat t st =
     (case earliest (timers st) of
        None \<Rightarrow> st\<lparr> clock := max (clock st) t \<rparr>
      | Some tm \<Rightarrow>
          if due tm \<le> t then advance plat t (run_timer plat tm st)
          else st\<lparr> clock := max (clock st) t \<rparr>)"
  by pat_completeness auto
termination
  by (relation "measure (\<lambda>(plat, t, st). pending_weight st)") (auto simp: run_timer_weight)

declare advance.simps [simp del]

subsection \<open>JSON as the browser writes and reads it\<close>

text \<open>
  The values a record is made of: strings, arrays and objects (an object is the list of
  its properties in the order in which they are written).
\<close>

datatype json = JString string | JArray "json list" | JObject "(string \<times> json) list"

text \<open>
  \<^verbatim>\<open>JSON.stringify\<close> on such a value. A string is written between double quotes; the
  double quote and the backslash are escaped with a backslash, the control characters
  below U+0020 as \<^verbatim>\<open>\b\<close>, \<^verbatim>\<open>\f\<close>, \<^verbatim>\<open>\n\<close>, \<^verbatim>\<open>\r\<close>, \<^verbatim>\<open>\t\<close> or \<^verbatim>\<open>\u00\<close> and two lower-case
  hexadecimal digits, and every other character stands for itself. Arrays and objects
  are written without white space.
\<close>

text \<open>The hexadecimal digit for a number below 16.\<close>

definition hex_digit :: "nat \<Rightarrow> char" where
  "hex_digit d = ''0123456789abcdef'' ! d"

definition escape_char :: "char \<Rightarrow> string" where
  "escape_char c =
     (if c = CHR 0x22 then [CHR 0x5C, CHR 0x22]
      else if c = CHR 0x5C then [CHR 0x5C, CHR 0x5C]
      else if c = CHR 0x08 then [CHR 0x5C, CHR ''b'']
      else if c = CHR 0x0C then [CHR 0x5C, CHR ''f'']
      else if c = CHR 0x0A then [CHR 0x5C, CHR ''n'']
      else if c = CHR 0x0D then [CHR 0x5C, CHR ''r'']
      else if c = CHR 0x09 then [CHR 0x5C, CHR ''t'']
      else if (of_char c :: nat) < 0x20
      then [CHR 0x5C, CHR ''u'', CHR ''0'', CHR ''0'',
            hex_digit (of_char c div 16), hex_digit (of_char c mod 16)]
      else [c])"

definition quote :: "string \<Rightarrow> string" where
  "quote s = CHR 0x22 # concat (map escape_char s) @ [CHR 0x22]"

fun join_commas :: "string list \<Rightarrow> string" where
  "join_commas [] = []"
| "join_commas [x] = x"
| "join_commas (x # y # ys) = x @ CHR '','' # join_commas (y # ys)"

fun stringify_json :: "json \<Rightarrow> string" where
  "stringify_json (JString s) = quote s"
| "stringify_json (JArray xs) = CHR ''['' # join_commas (map stringify_json xs) @ [CHR '']'']"
| "stringify_json (JObject ps) =
     CHR ''{'' # join_commas (map (\<lambda>p. quote (fst p) @ CHR '':'' # stringify_json (snd p)) ps)
       @ [CHR ''}'']"

text \<open>
  \<^verbatim>\<open>JSON.parse\<close> on a text. White space (space, tab, line feed, carriage return) may
  stand around every token. In a string a backslash introduces one of the escapes
  \<^verbatim>\<open>\"\<close>, \<^verbatim>\<open>\\\<close>, \<^verbatim>\<open>\/\<close>, \<^verbatim>\<open>\b\<close>, \<^verbatim>\<open>\f\<close>, \<^verbatim>\<open>\n\<close>, \<^verbatim>\<open>\r\<close>, \<^verbatim>\<open>\t\<close> or \<^verbatim>\<open>\u\<close> with four
  hexadecimal digits, and a raw control character is an error. A text that is not of
  this form has no value here (\<open>None\<close>): either \<^verbatim>\<open>JSON.parse\<close> throws, or it is a number,
  a literal or a character above 255, of which a record of the model has none.
\<close>

definition json_space :: "char \<Rightarrow> bool" where
  "json_space c = (c \<in> set [CHR 0x20, CHR 0x09, CHR 0x0A, CHR 0x0D])"

definition skip_ws :: "string \<Rightarrow> string" where
  "skip_ws s = dropWhile json_space s"

definition hex_value :: "char \<Rightarrow> nat option" where
  "hex_value c =
     (let n = of_char c :: nat
      in if 48 \<le> n \<and> n \<le> 57 then Some (n - 48)
         else if 97 \<le> n \<and> n \<le> 102 then Some (n - 87)
         else if 65 \<le> n \<and> n \<le> 70 then Some (n - 55)
         else None)"

definition unescape :: "char \<Rightarrow> char option" where
  "unescape e =
     (if e = CHR 0x22 then Some (CHR 0x22)
      else if e = CHR 0x5C then Some (CHR 0x5C)
      else if e = CHR ''/'' then Some (CHR ''/'')
      else if e = CHR ''b'' then Some (CHR 0x08)
      else if e = CHR ''f'' then Some (CHR 0x0C)
      else if e = CHR ''n'' then Some (CHR 0x0A)
      else if e = CHR ''r'' then Some (CHR 0x0D)
      else if e = CHR ''t'' then Some (CHR 0x09)
      else None)"

definition unicode_escape :: "char \<Rightarrow> char \<Rightarrow> char \<Rightarrow> char \<Rightarrow> char option" where
  "unicode_escape a b c d =
     (case (hex_value a, hex_value b, hex_value c, hex_value d) of
        (Some h1, Some h2, Some h3, Some h4) \<Rightarrow>
          (let n = ((h1 * 16 + h2) * 16 + h3) * 16 + h4
           in if n < 256 then Some (char_of n) else None)
      | _ \<Rightarrow> None)"

definition consed :: "'a \<Rightarrow> ('a list \<times> 'b) option \<Rightarrow> ('a list \<times> 'b) option" where
  "consed x r = map_option (\<lambda>(xs, rest). (x # xs, rest)) r"

fun parse_chars :: "string \<Rightarrow> (string \<times> string) option" where
  "parse_chars [] = None"
| "parse_chars (c # cs) =
     (if c = CHR 0x22 then Some ([], cs)
      else if c = CHR 0x5C then
        (case cs of
           [] \<Rightarrow> None
         | e # cs1 \<Rightarrow>
             if e = CHR ''u'' then
               (case cs1 of
                  a # b # c # d # cs2 \<Rightarrow>
                    (case unicode_escape a b c d of
                       None \<Rightarrow> None
                     | Some x \<Rightarrow> consed x (parse_chars cs2))
                | _ \<Rightarrow> None)
             else (case unescape e of
                     None \<Rightarrow> None
                   | Some x \<Rightarrow> consed x (parse_chars cs1)))
      else if (of_char c :: nat) < 0x20 then None
      else consed c (parse_chars cs))"

text \<open>
  The parser descends into arrays and objects; its first argument bounds the number of
  nested calls, and \<open>parse_json\<close> gives it more than the text can use.
\<close>

fun parse_value :: "nat \<Rightarrow> string \<Rightarrow> (json \<times> string) option"
  and parse_elements :: "nat \<Rightarrow> string \<Rightarrow> (json list \<times> string) option"
  and parse_members :: "nat \<Rightarrow> string \<Rightarrow> ((string \<times> json) list \<times> string) option" where
  "parse_value 0 s = None"
| "parse_value (Suc n) s =
     (case skip_ws s of
        [] \<Rightarrow> None
      | c # cs \<Rightarrow>
          if c = CHR 0x22 then map_option (\<lambda>(x, rest). (JString x, rest)) (parse_chars cs)
          else if c = CHR ''['' then
            (case skip_ws cs of
               [] \<Rightarrow> None
             | d # ds \<Rightarrow>
                 if d = CHR '']'' then Some (JArray [], ds)
                 else map_option (\<lambda>(xs, rest). (JArray xs, rest)) (parse_elements n cs))
          else if c = CHR ''{'' then
            (case skip_ws cs of
               [] \<Rightarrow> None
             | d # ds \<Rightarrow>
                 if d = CHR ''}'' then Some (JObject [], ds)
                 else map_option (\<lambda>(ps, rest). (JObject ps, rest)) (parse_members n cs))
          else None)"
| "parse_elements 0 s = None"
| "parse_elements (Suc n) s =
     (case parse_value n s of
        None \<Rightarrow> None
      | Some (x, rest) \<Rightarrow>
          (case skip_ws rest of
             [] \<Rightarrow> None
           | d # ds \<Rightarrow>
               if d = CHR '','' then consed x (parse_elements n ds)
               else if d = CHR '']'' then Some ([x], ds)
               else None))"
| "parse_members 0 s = None"
| "parse_members (Suc n) s =
     (case skip_ws s of
        [] \<Rightarrow> None
      | q # cs \<Rightarrow>
          if q \<noteq> CHR 0x22 then None
          else (case parse_chars cs of
                  None \<Rightarrow> None
                | Some (k, rest) \<Rightarrow>
                    (case skip_ws rest of
                       [] \<Rightarrow> None
                     | colon # rest1 \<Rightarrow>
                         if colon \<noteq> CHR '':'' then None
                         else (case parse_value n rest1 of
                                 None \<Rightarrow> None
                               | Some (v, rest2) \<Rightarrow>
                                   (case skip_ws rest2 of
                                      [] \<Rightarrow> None
                                    | d # ds \<Rightarrow>
                                        if d = CHR '','' then consed (k, v) (parse_members n ds)
                                        else if d = CHR ''}'' then Some ([(k, v)], ds)
                                        else None)))))"

definition parse_json :: "string \<Rightarrow> json option" where
  "parse_json s =
     (case parse_value (Suc (2 * length s)) s of
        None \<Rightarrow> None
      | Some (j, rest) \<Rightarrow> if skip_ws rest = [] then Some j else None)"

text \<open>The number of nested calls that parsing the text of a value takes at most.\<close>

fun weight :: "json \<Rightarrow> nat" where
  "weight (JString s) = 1"
| "weight (JArray xs) = Suc (sum_list (map (\<lambda>x. Suc (weight x)) xs))"
| "weight (JObject ps) = Suc (sum_list (map (\<lambda>p. Suc (weight (snd p))) ps))"

text \<open>
  A record as a JSON value. \<open>keys\<close> stands for \<^verbatim>\<open>Object.keys\<close>: the names of an object's
  properties in the order of their creation, which the maps of the model do not hold. A
  property without a value is not written. The record's own properties are written in
  the order in which the initial record creates them, \<^verbatim>\<open>projects\<close> only when it is there.
\<close>

definition json_of_object :: "(js_object \<Rightarrow> string list) \<Rightarrow> js_object \<Rightarrow> json" where
  "json_of_object keys obj =
     JObject (List.map_filter (\<lambda>k. map_option (\<lambda>v. (k, JString v)) (obj k)) (keys obj))"

definition json_of_resumeData :: "(js_object \<Rightarrow> string list) \<Rightarrow> ResumeData \<Rightarrow> json" where
  "json_of_resumeData keys r =
     JObject
       ([(''personalInfo'', json_of_object keys (personalInfo r)),
         (''experience'', JArray (map (json_of_object keys) (experience r))),
         (''education'', JArray (map (json_of_object keys) (education r))),
         (''skills'', JArray (map JString (skills r)))]
        @ (case projects r of
             None \<Rightarrow> []
           | Some ps \<Rightarrow> [(''projects'', JArray (map (json_of_object keys) ps))]))"

definition json_stringify :: "(js_object \<Rightarrow> string list) \<Rightarrow> ResumeData \<Rightarrow> string" where
  "json_stringify keys r = stringify_json (json_of_resumeData keys r)"

text \<open>
  A JSON value as a record: the reading \<^verbatim>\<open>JSON.parse(saved)\<close> gets when it is installed as
  \<^verbatim>\<open>ResumeData\<close>. When a property is written twice the last one counts. A value that is
  not a record of this type has no reading in the model.
\<close>

fun string_of_json :: "json \<Rightarrow> string option" where
  "string_of_json (JString s) = Some s"
| "string_of_json _ = None"

fun object_of_json :: "json \<Rightarrow> js_object option" where
  "object_of_json (JObject ps) =
     map_option (\<lambda>qs. map_of (rev qs))
       (those (map (\<lambda>p. map_option (Pair (fst p)) (string_of_json (snd p))) ps))"
| "object_of_json _ = None"

fun array_of_json :: "(json \<Rightarrow> 'a option) \<Rightarrow> json \<Rightarrow> 'a list option" where
  "array_of_json f (JArray xs) = those (map f xs)"
| "array_of_json f _ = None"

fun resumeData_of_json :: "json \<Rightarrow> ResumeData option" where
  "resumeData_of_json (JObject ps) =
     (let m = map_of (rev ps)
      in case (Option.bind (m ''personalInfo'') object_of_json,
               Option.bind (m ''experience'') (array_of_json object_of_json),
               Option.bind (m ''education'') (array_of_json object_of_json),
               Option.bind (m ''skills'') (array_of_json string_of_json),
               (case m ''projects'' of
                  None \<Rightarrow> Some None
                | Some p \<Rightarrow> map_option Some (array_of_json object_of_json p)))
         of (Some a, Some b, Some c, Some d, Some e) \<Rightarrow>
              Some \<lparr> personalInfo = a, experience = b, education = c, skills = d, projects = e \<rparr>
          | _ \<Rightarrow> None)"
| "resumeData_of_json _ = None"

definition json_parse :: "string \<Rightarrow> ResumeData option" where
  "json_parse s = Option.bind (parse_json s) resumeData_of_json"

text \<open>
  The platform whose JSON functions are the ones above; \<open>q\<close> says which writes its local
  storage rejects.
\<close>

definition browser ::
  "(js_object \<Rightarrow> string list) \<Rightarrow> ((string \<rightharpoonup> string) \<Rightarrow> string \<Rightarrow> string \<Rightarrow> bool) \<Rightarrow> platform" where
  "browser keys q =
     \<lparr> JSON_stringify = json_stringify keys, JSON_parse = json_parse, quota_exceeded = q \<rparr>"

text \<open>\<open>keys\<close> lists the properties of every object of the record.\<close>

definition objects :: "ResumeData \<Rightarrow> js_object set" where
  "objects r =
     insert (personalInfo r)
       (set (experience r) \<union> set (education r) \<union> set (or_empty (projects r)))"

definition own_keys :: "(js_object \<Rightarrow> string list) \<Rightarrow> ResumeData \<Rightarrow> bool" where
  "own_keys keys r = (\<forall>obj \<in> objects r. set (keys obj) = dom obj)"

text \<open>
  A well-formed record, as the specification's data model has it: the personal
  information has exactly the seven fields, and each experience, education and project
  entry exactly its four.
\<close>

definition experience_fields :: "string list" where
  "experience_fields = [''title'', ''company'', ''duration'', ''description'']"

definition education_fields :: "string list" where
  "education_fields = [''degree'', ''institution'', ''year'', ''gpa'']"

definition project_fields :: "string list" where
  "project_fields = [''name'', ''description'', ''technologies'', ''link'']"

definition well_formed :: "ResumeData \<Rightarrow> bool" where
  "well_formed r =
     (dom (personalInfo r) = set personal_fields
      \<and> (\<forall>e \<in> set (experience r). dom e = set experience_fields)
      \<and> (\<forall>e \<in> set (education r). dom e = set education_fields)
      \<and> (\<forall>p \<in> set (or_empty (projects r)). dom p = set project_fields))"

text \<open>
  \<^verbatim>\<open>Object.keys\<close> for the objects of a well-formed record that the component's own object
  literals created: the declared names that the object has, in the order of declaration.
\<close>

definition declared_names :: "string list" where
  "declared_names =
     [''name'', ''email'', ''phone'', ''location'', ''summary'', ''linkedin'', ''github'',
      ''title'', ''company'', ''duration'', ''description'',
      ''degree'', ''institution'', ''year'', ''gpa'', ''technologies'', ''link'']"

definition declared_keys :: "js_object \<Rightarrow> string list" where
  "declared_keys obj = filter (\<lambda>k. obj k \<noteq> None) declared_names"

subsection \<open>The completion score as the specification words it\<close>

text \<open>
  The seven presence predicates of the specification, in its order: name, email and
  summary non-empty, then skills, experience, education and projects non-empty, an
  absent projects list counting as empty.
\<close>

definition completion_predicates :: "ResumeData \<Rightarrow> bool list" where
  "completion_predicates r =
     [personalInfo r ''name'' \<noteq> None \<and> personalInfo r ''name'' \<noteq> Some [],
      personalInfo r ''email'' \<noteq> None \<and> personalInfo r ''email'' \<noteq> Some [],
      personalInfo r ''summary'' \<noteq> None \<and> personalInfo r ''summary'' \<noteq> Some [],
      skills r \<noteq> [],
      experience r \<noteq> [],
      education r \<noteq> [],
      (case projects r of None \<Rightarrow> False | Some ps \<Rightarrow> ps \<noteq> [])]"

definition count_true :: "bool list \<Rightarrow> nat" where
  "count_true bs = length (filter (\<lambda>b. b) bs)"

subsection \<open>Records and states used in the examples\<close>

text \<open>A record with a name, an email, a summary and one entry in each list.\<close>

definition filled_resumeData :: ResumeData where
  "filled_resumeData =
     \<lparr> personalInfo = map_of
         [(''name'', ''Ada Lovelace''), (''email'', ''ada@example.org''), (''phone'', []),
          (''location'', []), (''summary'', ''Analyst''), (''linkedin'', []), (''github'', [])],
       experience = [empty_experience],
       education = [empty_education],
       skills = [''Python''],
       projects = Some [empty_project] \<rparr>"

text \<open>A session whose record is the filled one.\<close>

definition filled_state :: builder_state where
  "filled_state = onDataImported filled_resumeData (initial_state Map.empty)"

text \<open>A session that imported a record whose skills hold the same text twice.\<close>

definition imported_with_duplicates :: builder_state where
  "imported_with_duplicates =
     onDataImported (initial_resumeData\<lparr> skills := [''Python'', ''Python''] \<rparr>)
       (initial_state Map.empty)"

text \<open>A session that imported a record without a \<^verbatim>\<open>projects\<close> property.\<close>

definition imported_without_projects :: builder_state where
  "imported_without_projects =
     onDataImported (initial_resumeData\<lparr> projects := None \<rparr>) (initial_state Map.empty)"

subsection \<open>A platform for the examples\<close>

text \<open>
  Three records and the texts the browser's \<^verbatim>\<open>JSON.stringify\<close> gives for them: the
  initial record, the initial record without its \<^verbatim>\<open>projects\<close> property, and the initial
  record after the name Ali has been typed.
\<close>

definition typed_resumeData :: ResumeData where
  "typed_resumeData =
     initial_resumeData\<lparr> personalInfo := (personalInfo initial_resumeData)(''name'' \<mapsto> ''Ali'') \<rparr>"

definition initial_json :: string where
  \<open>initial_json = ''{"personalInfo":{"name":"","email":"","phone":"","location":"","summary":"","linkedin":"","github":""},"experience":[],"education":[],"skills":[],"projects":[]}''\<close>

definition no_projects_json :: string where
  \<open>no_projects_json = ''{"personalInfo":{"name":"","email":"","phone":"","location":"","summary":"","linkedin":"","github":""},"experience":[],"education":[],"skills":[]}''\<close>

definition typed_json :: string where
  \<open>typed_json = ''{"personalInfo":{"name":"Ali","email":"","phone":"","location":"","summary":"","linkedin":"","github":""},"experience":[],"education":[],"skills":[],"projects":[]}''\<close>

text \<open>
  An excerpt of a browser: it serialises and parses these three records as the browser
  does (what it answers for any other record or text plays no part in the examples), and
  its local storage rejects every write when \<open>full\<close> and none otherwise.
\<close>

definition sample_platform :: "bool \<Rightarrow> platform" where
  "sample_platform full =
     \<lparr> JSON_stringify = (\<lambda>d. if d = initial_resumeData then initial_json
                              else if d = initial_resumeData\<lparr> projects := None \<rparr>
                              then no_projects_json
                              else if d = typed_resumeData then typed_json
                              else ''null''),
       JSON_parse = (\<lambda>s. if s = initial_json then Some initial_resumeData
                          else if s = no_projects_json
                          then Some (initial_resumeData\<lparr> projects := None \<rparr>)
                          else if s = typed_json then Some typed_resumeData
                          else None),
       quota_exceeded = (\<lambda>store key v. full) \<rparr>"

subsection \<open>Sequences of calls on the experience list\<close>

datatype experience_call =
  AddExperience
| UpdateExperience int string string
| RemoveExperience int

fun call_experience :: "experience_call \<Rightarrow> builder_state \<Rightarrow> builder_state" where
  "call_experience AddExperience st = addExperience st"
| "call_experience (UpdateExperience index field v) st = updateExperience index field v st"
| "call_experience (RemoveExperience index) st = removeExperience index st"

definition run_calls :: "experience_call list \<Rightarrow> builder_state \<Rightarrow> builder_state" where
  "run_calls calls st = fold call_experience calls st"

definition adds :: "experience_call list \<Rightarrow> nat" where
  "adds calls = length (filter (\<lambda>c. c = AddExperience) calls)"

definition removes :: "experience_call list \<Rightarrow> nat" where
  "removes calls = length (filter (\<lambda>c. case c of RemoveExperience _ \<Rightarrow> True | _ \<Rightarrow> False) calls)"

text \<open>
  What the specification's property speaks of, kept beside the run: which entry stands
  at each position (entries are numbered as they appear: the initial ones by their
  position, an added one by the next free number), the value of the last update applied
  to each entry and field, and how many entries the removes took out. An update or a
  remove applies to the entry standing at its index when it is called, and to none when
  the index addresses no entry.
\<close>

record tracker =
  ids :: "nat list"
  next_id :: nat
  last_update :: "(nat \<times> string) \<rightharpoonup> string"
  removed :: nat

definition initial_tracker :: "nat \<Rightarrow> tracker" where
  "initial_tracker n = \<lparr> ids = [0..<n], next_id = n, last_update = Map.empty, removed = 0 \<rparr>"

fun track :: "experience_call \<Rightarrow> tracker \<Rightarrow> tracker" where
  "track AddExperience tr = tr\<lparr> ids := ids tr @ [next_id tr], next_id := next_id tr + 1 \<rparr>"
| "track (UpdateExperience index field v) tr =
     (if 0 \<le> index \<and> index < int (length (ids tr))
      then tr\<lparr> last_update := (last_update tr)((ids tr ! nat index, field) \<mapsto> v) \<rparr>
      else tr)"
| "track (RemoveExperience index) tr =
     (if 0 \<le> index \<and> index < int (length (ids tr))
      then tr\<lparr> ids := take (nat index) (ids tr) @ drop (Suc (nat index)) (ids tr),
               removed := removed tr + 1 \<rparr>
      else tr)"

text \<open>The entry numbered \<open>k\<close> as it was when it appeared.\<close>

definition origin :: "js_object list \<Rightarrow> nat \<Rightarrow> js_object" where
  "origin es0 k = (if k < length es0 then es0 ! k else empty_experience)"

text \<open>The entry numbered \<open>k\<close> with the last update of each field applied.\<close>

definition last_updated :: "js_object list \<Rightarrow> tracker \<Rightarrow> nat \<Rightarrow> js_object" where
  "last_updated es0 tr k =
     (\<lambda>field. case last_update tr (k, field) of Some v \<Rightarrow> Some v | None \<Rightarrow> origin es0 k field)"

text \<open>The three handlers as functions of the experience list alone.\<close>

fun experience_step :: "experience_call \<Rightarrow> js_object list \<Rightarrow> js_object list" where
  "experience_step AddExperience es = es @ [empty_experience]"
| "experience_step (UpdateExperience index field v) es =
     (if 0 \<le> index \<and> index < int (length es)
      then es[nat index := (es ! nat index)(field \<mapsto> v)] else es)"
| "experience_step (RemoveExperience index) es =
     (if 0 \<le> index \<and> index < int (length es)
      then take (nat index) es @ drop (Suc (nat index)) es else es)"

text \<open>
  How a list \<open>es\<close> reached from \<open>es0\<close> and what was kept beside the run fit together:
  one number for each position, no number twice, none used that is not yet given out, and
  each entry equal to its origin with the last updates applied.
\<close>

definition tracked :: "js_object list \<Rightarrow> js_object list \<Rightarrow> tracker \<Rightarrow> bool" where
  "tracked es0 es tr =
     (length es = length (ids tr)
      \<and> distinct (ids tr)
      \<and> (\<forall>k \<in> set (ids tr). k < next_id tr)
      \<and> length es0 \<le> next_id tr
      \<and> (\<forall>k field. next_id tr \<le> k \<longrightarrow> last_update tr (k, field) = None)
      \<and> (\<forall>j < length es. es ! j = last_updated es0 tr (ids tr ! j)))"

text \<open>
  Every remove of the sequence addresses an entry when it is called, the list having
  \<open>n\<close> entries at the start.
\<close>

fun removes_in_range :: "experience_call list \<Rightarrow> nat \<Rightarrow> bool" where
  "removes_in_range [] n = True"
| "removes_in_range (AddExperience # cs) n = removes_in_range cs (n + 1)"
| "removes_in_range (UpdateExperience index field v # cs) n = removes_in_range cs n"
| "removes_in_range (RemoveExperience index # cs) n =
     (0 \<le> index \<and> index < int n \<and> removes_in_range cs (n - 1))"

text \<open>A sequence of calls for the examples.\<close>

definition sample_calls :: "experience_call list" where
  "sample_calls =
     [AddExperience, UpdateExperience 0 ''title'' ''Dev'', AddExperience,
      UpdateExperience 1 ''title'' ''QA'', UpdateExperience 0 ''title'' ''Lead'',
      RemoveExperience 0]"

subsection \<open>The debounce scenario\<close>

text \<open>
  The component is mounted at time 0; the record is changed at times 0, 500 and 1000 by
  the updaters \<open>f1\<close>, \<open>f2\<close> and \<open>f3\<close>; then time passes until \<open>t\<close>.
\<close>

definition three_changes ::
  "platform \<Rightarrow> (string \<rightharpoonup> string) \<Rightarrow> (ResumeData \<Rightarrow> ResumeData) \<Rightarrow> (ResumeData \<Rightarrow> ResumeData)
     \<Rightarrow> (ResumeData \<Rightarrow> ResumeData) \<Rightarrow> nat \<Rightarrow> builder_state" where
  "three_changes plat store f1 f2 f3 t =
     advance plat t
       (setResumeData f3
          (advance plat 1000
             (setResumeData f2
                (advance plat 500
                   (setResumeData f1
                      (advance plat 0 (mount plat store)))))))"

text \<open>
  At time \<open>c\<close> nothing has been written yet and the one pending timer is the autosave
  timer, due at \<open>d\<close>, whose callback saves the current record.
\<close>

definition waiting :: "builder_state \<Rightarrow> nat \<Rightarrow> nat \<Rightarrow> bool" where
  "waiting st c d =
     (clock st = c \<and> setItem_calls st = []
      \<and> (\<exists>h. timers st = [Timer h d (SaveCallback (resumeData st))]
               \<and> autosave_handle st = Some h))"

text \<open>The updater of \<^verbatim>\<open>handlePersonalInfoChange('name', v)\<close>.\<close>

definition type_name :: "string \<Rightarrow> ResumeData \<Rightarrow> ResumeData" where
  "type_name v prev = prev\<lparr> personalInfo := spread_set (personalInfo prev) ''name'' v \<rparr>"

section \<open>Basic facts\<close>

subsection \<open>What the handlers do to the record\<close>

lemma resumeData_autosave_effect [simp]:
  "resumeData (autosave_effect st) = resumeData st"
  by (simp add: autosave_effect_def clearTimeout_def setTimeout_def Let_def split: option.splits)

lemma resumeData_setResumeData [simp]:
  "resumeData (setResumeData updater st) = updater (resumeData st)"
  by (simp add: setResumeData_def)

subsection \<open>Arrays\<close>

lemma enumerate_shift_map:
  "map (\<lambda>(i, x). f x i) (enumerate n xs) = map (\<lambda>i. f (xs ! (i - n)) i) [n..<n + length xs]"
  by (rule nth_equalityI) (simp_all add: nth_enumerate_eq)

lemma array_map_conv: "array_map f xs = map (\<lambda>i. f (xs ! i) i) [0..<length xs]"
  using enumerate_shift_map[of f 0 xs] by (simp add: array_map_def)

lemma length_array_map [simp]: "length (array_map f xs) = length xs"
  by (simp add: array_map_conv)

lemma nth_array_map: "i < length xs \<Longrightarrow> array_map f xs ! i = f (xs ! i) i"
  by (simp add: array_map_conv)

lemma array_map_at:
  "array_map (\<lambda>x i. if int i = index then g x else x) xs =
     (if 0 \<le> index \<and> index < int (length xs) then xs[nat index := g (xs ! nat index)] else xs)"
  by (rule nth_equalityI) (auto simp: nth_array_map nth_list_update)

lemma array_filter_conv:
  "array_filter p xs = map (\<lambda>i. xs ! i) (filter (\<lambda>i. p (xs ! i) i) [0..<length xs])"
proof -
  have e: "enumerate 0 xs = map (\<lambda>i. (i, xs ! i)) [0..<length xs]"
    by (rule nth_equalityI) (simp_all add: nth_enumerate_eq)
  show ?thesis
    unfolding array_filter_def e by (simp add: filter_map comp_def)
qed

lemma filter_upt_neq:
  "filter (\<lambda>i. i \<noteq> k) [0..<n] = (if k < n then [0..<k] @ [Suc k..<n] else [0..<n])"
proof (induction n)
  case 0
  then show ?case by simp
next
  case (Suc n)
  then show ?case by (auto simp: upt_conv_Cons less_Suc_eq)
qed

lemma array_filter_at:
  "array_filter (\<lambda>_ i. int i \<noteq> index) xs =
     (if 0 \<le> index \<and> index < int (length xs)
      then take (nat index) xs @ drop (Suc (nat index)) xs else xs)"
proof (cases "0 \<le> index \<and> index < int (length xs)")
  case True
  then obtain k where k: "index = int k" "k < length xs"
    by (metis nat_less_iff nonneg_int_cases of_nat_less_iff)
  have "array_filter (\<lambda>_ i. int i \<noteq> index) xs = map (\<lambda>i. xs ! i) ([0..<k] @ [Suc k..<length xs])"
    using k by (simp add: array_filter_conv filter_upt_neq)
  also have "\<dots> = take k xs @ drop (Suc k) xs"
  proof -
    have "map (\<lambda>i. xs ! i) [0..<k] = take k xs"
      using k by (intro nth_equalityI) simp_all
    moreover have "map (\<lambda>i. xs ! i) [Suc k..<length xs] = drop (Suc k) xs"
      using k by (intro nth_equalityI) simp_all
    ultimately show ?thesis by simp
  qed
  finally show ?thesis using k by simp
next
  case False
  have "filter (\<lambda>i. int i \<noteq> index) [0..<length xs] = [0..<length xs]"
    using False by (auto simp: filter_id_conv)
  then have "array_filter (\<lambda>_ i. int i \<noteq> index) xs = xs"
    by (simp add: array_filter_conv map_nth)
  with False show ?thesis by auto
qed

subsection \<open>The completion score\<close>

lemma truthy_iff: "truthy v \<longleftrightarrow> v \<noteq> None \<and> v \<noteq> Some []"
  by (cases v) (simp_all add: truthy_def)

lemma or_empty_nonempty:
  "length (or_empty xs) > 0 \<longleftrightarrow> (case xs of None \<Rightarrow> False | Some ps \<Rightarrow> ps \<noteq> [])"
  by (cases xs) (simp_all add: or_empty_def)

lemma count_true_simps:
  "count_true (b # bs) = count_true bs + of_bool b" "count_true [] = 0"
  by (simp_all add: count_true_def)

lemma incr_if: "(if b then c + 1 else c) = c + (of_bool b :: nat)"
  by simp

lemma completed_count:
  "getCompletionPercentage r =
     round (real (0 + of_bool (truthy (personalInfo r ''name''))
       + of_bool (truthy (personalInfo r ''email''))
       + of_bool (truthy (personalInfo r ''summary''))
       + of_bool (length (skills r) > 0)
       + of_bool (length (experience r) > 0)
       + of_bool (length (education r) > 0)
       + of_bool (length (or_empty (projects r)) > 0)) / real 7 * 100)"
  unfolding getCompletionPercentage_def Let_def incr_if ..

lemma score_count:
  "getCompletionPercentage r = round (100 * real (count_true (completion_predicates r)) / 7)"
proof -
  have "count_true (completion_predicates r) =
     0 + of_bool (truthy (personalInfo r ''name''))
       + of_bool (truthy (personalInfo r ''email''))
       + of_bool (truthy (personalInfo r ''summary''))
       + of_bool (length (skills r) > 0)
       + of_bool (length (experience r) > 0)
       + of_bool (length (education r) > 0)
       + of_bool (length (or_empty (projects r)) > 0)"
    unfolding completion_predicates_def count_true_simps truthy_iff or_empty_nonempty
    by (simp only: length_greater_0_conv add_ac)
  then show ?thesis
    unfolding completed_count by (simp add: mult.commute)
qed

lemma score_initial: "getCompletionPercentage initial_resumeData = 0"
  by (simp add: completed_count initial_resumeData_def personal_fields_def truthy_def
      or_empty_def)

lemma score_all_true:
  assumes "\<forall>b \<in> set (completion_predicates r). b"
  shows "getCompletionPercentage r = 100"
proof -
  have "count_true (completion_predicates r) = 7"
    using assms by (simp add: completion_predicates_def count_true_def)
  then show ?thesis by (simp add: score_count)
qed

lemma score_agree:
  assumes "completion_predicates r1 = completion_predicates r2"
  shows "getCompletionPercentage r1 = getCompletionPercentage r2"
  by (simp add: score_count assms)

text \<open>
  C1. The completion scorer is a function of the record alone. It evaluates exactly seven
  predicates of equal weight (name, email and summary non-empty; skills, experience,
  education and projects non-empty, an absent projects list counting as empty) and
  returns round (100 * count_true / 7). The empty record scores 0, and a record with a
  name, an email, a summary, a skill, an experience, an education and a project scores 100.
\<close>

theorem completion_score_seven_predicates:
  "length (completion_predicates r) = 7
   \<and> getCompletionPercentage r = round (100 * real (count_true (completion_predicates r)) / 7)
   \<and> getCompletionPercentage initial_resumeData = 0
   \<and> (truthy (personalInfo r ''name'') \<and> truthy (personalInfo r ''email'')
        \<and> truthy (personalInfo r ''summary'') \<and> skills r \<noteq> [] \<and> experience r \<noteq> []
        \<and> education r \<noteq> [] \<and> (\<exists>p ps. projects r = Some (p # ps))
       \<longrightarrow> getCompletionPercentage r = 100)"
proof (intro conjI impI)
  show "length (completion_predicates r) = 7"
    by (simp add: completion_predicates_def)
  show "getCompletionPercentage r = round (100 * real (count_true (completion_predicates r)) / 7)"
    by (rule score_count)
  show "getCompletionPercentage initial_resumeData = 0"
    by (rule score_initial)
next
  assume a: "truthy (personalInfo r ''name'') \<and> truthy (personalInfo r ''email'')
        \<and> truthy (personalInfo r ''summary'') \<and> skills r \<noteq> [] \<and> experience r \<noteq> []
        \<and> education r \<noteq> [] \<and> (\<exists>p ps. projects r = Some (p # ps))"
  then have "\<forall>b \<in> set (completion_predicates r). b"
    by (auto simp: completion_predicates_def truthy_iff)
  then show "getCompletionPercentage r = 100"
    by (rule score_all_true)
qed

theorem completion_score_seven_predicates_witness:
  "truthy (personalInfo filled_resumeData ''name'')
   \<and> truthy (personalInfo filled_resumeData ''email'')
   \<and> truthy (personalInfo filled_resumeData ''summary'')
   \<and> length (skills filled_resumeData) = 1
   \<and> length (experience filled_resumeData) = 1
   \<and> length (education filled_resumeData) = 1
   \<and> projects filled_resumeData = Some [empty_project]
   \<and> getCompletionPercentage filled_resumeData = 100"
  using completion_score_seven_predicates [of filled_resumeData]
  by (simp add: filled_resumeData_def truthy_def)

subsection \<open>The handlers on the record\<close>

lemma resumeData_onDataImported [simp]: "resumeData (onDataImported d st) = d"
  by (simp add: onDataImported_def Let_def)

lemma resumeData_handlePersonalInfoChange:
  "resumeData (handlePersonalInfoChange field v st) =
     (resumeData st)\<lparr> personalInfo := (personalInfo (resumeData st))(field \<mapsto> v) \<rparr>"
  by (simp add: handlePersonalInfoChange_def spread_set_def)

lemma resumeData_updateExperience:
  "resumeData (updateExperience index field v st) =
     (resumeData st)\<lparr> experience :=
        (if 0 \<le> index \<and> index < int (length (experience (resumeData st)))
         then (experience (resumeData st))
                [nat index := (experience (resumeData st) ! nat index)(field \<mapsto> v)]
         else experience (resumeData st)) \<rparr>"
  by (simp add: updateExperience_def array_map_at spread_set_def)

lemma resumeData_removeExperience:
  "resumeData (removeExperience index st) =
     (resumeData st)\<lparr> experience :=
        (if 0 \<le> index \<and> index < int (length (experience (resumeData st)))
         then take (nat index) (experience (resumeData st))
              @ drop (Suc (nat index)) (experience (resumeData st))
         else experience (resumeData st)) \<rparr>"
  by (simp add: removeExperience_def array_filter_at)

lemma resumeData_addExperience:
  "resumeData (addExperience st) =
     (resumeData st)\<lparr> experience := experience (resumeData st) @ [empty_experience] \<rparr>"
  by (simp add: addExperience_def)

lemma resumeData_updateEducation:
  "resumeData (updateEducation index field v st) =
     (resumeData st)\<lparr> education :=
        (if 0 \<le> index \<and> index < int (length (education (resumeData st)))
         then (education (resumeData st))
                [nat index := (education (resumeData st) ! nat index)(field \<mapsto> v)]
         else education (resumeData st)) \<rparr>"
  by (simp add: updateEducation_def array_map_at spread_set_def)

lemma resumeData_removeEducation:
  "resumeData (removeEducation index st) =
     (resumeData st)\<lparr> education :=
        (if 0 \<le> index \<and> index < int (length (education (resumeData st)))
         then take (nat index) (education (resumeData st))
              @ drop (Suc (nat index)) (education (resumeData st))
         else education (resumeData st)) \<rparr>"
  by (simp add: removeEducation_def array_filter_at)

lemma resumeData_removeSkill:
  "resumeData (removeSkill index st) =
     (resumeData st)\<lparr> skills :=
        (if 0 \<le> index \<and> index < int (length (skills (resumeData st)))
         then take (nat index) (skills (resumeData st))
              @ drop (Suc (nat index)) (skills (resumeData st))
         else skills (resumeData st)) \<rparr>"
  by (simp add: removeSkill_def array_filter_at)

lemma resumeData_updateProject:
  "resumeData (updateProject index field v st) =
     (resumeData st)\<lparr> projects := Some
        (if 0 \<le> index \<and> index < int (length (or_empty (projects (resumeData st))))
         then (or_empty (projects (resumeData st)))
                [nat index := (or_empty (projects (resumeData st)) ! nat index)(field \<mapsto> v)]
         else or_empty (projects (resumeData st))) \<rparr>"
  by (simp add: updateProject_def array_map_at spread_set_def)

lemma resumeData_removeProject:
  "resumeData (removeProject index st) =
     (resumeData st)\<lparr> projects := Some
        (if 0 \<le> index \<and> index < int (length (or_empty (projects (resumeData st))))
         then take (nat index) (or_empty (projects (resumeData st)))
              @ drop (Suc (nat index)) (or_empty (projects (resumeData st)))
         else or_empty (projects (resumeData st))) \<rparr>"
  by (simp add: removeProject_def array_filter_at)

lemma resumeData_addSkill:
  "resumeData (addSkill (resumeData st) skill st) =
     (if trim skill \<noteq> [] \<and> trim skill \<notin> set (skills (resumeData st))
      then (resumeData st)\<lparr> skills := skills (resumeData st) @ [trim skill] \<rparr>
      else resumeData st)"
  by (simp add: addSkill_def)

lemma trim_blank: "trim [] = []" "trim ''   '' = []"
  by (simp_all add: trim_def is_space_def white_space_code_def)

lemma trim_no_break_space: "trim [CHR 0xA0, CHR ''C'', CHR 0xA0] = ''C''"
  by (simp add: trim_def is_space_def white_space_code_def)

lemma trim_Python: "trim ''  Python '' = ''Python''" "trim ''Python'' = ''Python''"
  by (simp_all add: trim_def is_space_def white_space_code_def)

lemma addSkill_present:
  fixes st :: builder_state
  shows "trim skill \<in> set (skills (resumeData st)) \<Longrightarrow> addSkill (resumeData st) skill st = st"
  by (simp add: addSkill_def)

lemma addSkill_twice_count:
  fixes st :: builder_state
  assumes "trim skill \<noteq> []" "trim skill' = trim skill"
  shows "count_list (skills (resumeData
           (addSkill (resumeData (addSkill (resumeData st) skill st)) skill'
              (addSkill (resumeData st) skill st)))) (trim skill)
         = max 1 (count_list (skills (resumeData st)) (trim skill))"
proof -
  define st1 where "st1 = addSkill (resumeData st) skill st"
  define c where "c = count_list (skills (resumeData st)) (trim skill)"
  have one: "count_list (skills (resumeData st1)) (trim skill) = max 1 c"
  proof (cases "trim skill \<in> set (skills (resumeData st))")
    case True
    then have "c \<noteq> 0"
      by (simp add: c_def count_list_0_iff)
    with True show ?thesis
      by (simp add: st1_def addSkill_present c_def)
  next
    case False
    then have "c = 0"
      by (simp add: c_def count_list_0_iff)
    with False assms show ?thesis
      by (simp add: st1_def resumeData_addSkill c_def)
  qed
  then have "count_list (skills (resumeData st1)) (trim skill) \<noteq> 0"
    by simp
  then have "trim skill' \<in> set (skills (resumeData st1))"
    by (simp add: count_list_0_iff assms(2))
  then have "addSkill (resumeData st1) skill' st1 = st1"
    by (rule addSkill_present)
  with one show ?thesis
    by (simp add: st1_def c_def)
qed

text \<open>
  C3, as stated, fails: \<^verbatim>\<open>addSkill\<close> never removes anything, so on a list that already
  holds a text twice (an imported or loaded one) two calls with that text leave it twice.
\<close>

theorem addSkill_exactly_once_counterexample:
  "trim ''Python'' = ''Python''
   \<and> skills (resumeData imported_with_duplicates) = [''Python'', ''Python'']
   \<and> count_list
        (skills (resumeData
           (addSkill (resumeData (addSkill (resumeData imported_with_duplicates) ''Python''
                                    imported_with_duplicates))
              ''Python''
              (addSkill (resumeData imported_with_duplicates) ''Python''
                 imported_with_duplicates))))
        ''Python'' = 2"
proof -
  have s: "skills (resumeData imported_with_duplicates) = [''Python'', ''Python'']"
    by (simp add: imported_with_duplicates_def)
  have "addSkill (resumeData imported_with_duplicates) ''Python'' imported_with_duplicates
      = imported_with_duplicates"
    by (rule addSkill_present) (simp add: s trim_Python)
  then show ?thesis
    by (simp add: s trim_Python)
qed

text \<open>
  C3 (amended). \<^verbatim>\<open>addSkill\<close> trims its argument. When the trimmed text is non-empty and
  not among the skills (exact comparison of strings), it is appended; otherwise nothing
  changes. So after two calls with the same non-empty trimmed text the list holds it as
  often as before, and once if it did not hold it: exactly once for a list that held it
  at most once, as every list does that has no text twice, and \<^verbatim>\<open>addSkill\<close> keeps a list
  free of repetitions. Adding the empty text or blanks changes nothing. Each call is
  made by the handler of the current render.
\<close>

theorem addSkill_trims_and_rejects_duplicates:
  fixes st :: builder_state
  shows
  "(trim skill \<noteq> [] \<and> trim skill \<notin> set (skills (resumeData st)) \<longrightarrow>
      resumeData (addSkill (resumeData st) skill st) =
        (resumeData st)\<lparr> skills := skills (resumeData st) @ [trim skill] \<rparr>)
   \<and> (trim skill = [] \<or> trim skill \<in> set (skills (resumeData st)) \<longrightarrow>
        addSkill (resumeData st) skill st = st)
   \<and> (trim skill \<noteq> [] \<and> trim skill' = trim skill
        \<and> count_list (skills (resumeData st)) (trim skill) \<le> 1 \<longrightarrow>
        (let st1 = addSkill (resumeData st) skill st;
             st2 = addSkill (resumeData st1) skill' st1
         in count_list (skills (resumeData st2)) (trim skill) = 1))
   \<and> (trim skill \<noteq> [] \<and> trim skill' = trim skill \<longrightarrow>
        (let st1 = addSkill (resumeData st) skill st;
             st2 = addSkill (resumeData st1) skill' st1
         in count_list (skills (resumeData st2)) (trim skill)
              = max 1 (count_list (skills (resumeData st)) (trim skill))))
   \<and> (distinct (skills (resumeData st)) \<longrightarrow>
        distinct (skills (resumeData (addSkill (resumeData st) skill st))))
   \<and> addSkill (resumeData st) [] st = st
   \<and> addSkill (resumeData st) ''   '' st = st"
proof (intro conjI impI)
  assume "trim skill \<noteq> [] \<and> trim skill \<notin> set (skills (resumeData st))"
  then show "resumeData (addSkill (resumeData st) skill st) =
        (resumeData st)\<lparr> skills := skills (resumeData st) @ [trim skill] \<rparr>"
    by (simp add: resumeData_addSkill)
next
  assume "trim skill = [] \<or> trim skill \<in> set (skills (resumeData st))"
  then show "addSkill (resumeData st) skill st = st"
    by (auto simp: addSkill_def)
next
  assume a: "trim skill \<noteq> [] \<and> trim skill' = trim skill
        \<and> count_list (skills (resumeData st)) (trim skill) \<le> 1"
  then have "max 1 (count_list (skills (resumeData st)) (trim skill)) = 1"
    by simp
  then show "let st1 = addSkill (resumeData st) skill st;
             st2 = addSkill (resumeData st1) skill' st1
         in count_list (skills (resumeData st2)) (trim skill) = 1"
    using addSkill_twice_count[of skill skill' st] a by (simp add: Let_def)
next
  assume "trim skill \<noteq> [] \<and> trim skill' = trim skill"
  then show "let st1 = addSkill (resumeData st) skill st;
             st2 = addSkill (resumeData st1) skill' st1
         in count_list (skills (resumeData st2)) (trim skill)
              = max 1 (count_list (skills (resumeData st)) (trim skill))"
    using addSkill_twice_count[of skill skill' st] by (simp add: Let_def)
next
  assume "distinct (skills (resumeData st))"
  then show "distinct (skills (resumeData (addSkill (resumeData st) skill st)))"
    by (simp add: resumeData_addSkill)
next
  show "addSkill (resumeData st) [] st = st"
    by (simp add: addSkill_def trim_blank)
  show "addSkill (resumeData st) ''   '' st = st"
    by (simp add: addSkill_def trim_blank)
qed

theorem addSkill_trims_and_rejects_duplicates_witness:
  "trim ''  Python '' = ''Python''
   \<and> trim ''Python'' = trim ''  Python ''
   \<and> trim ''  Python '' \<notin> set (skills (resumeData (initial_state Map.empty)))
   \<and> count_list (skills (resumeData (initial_state Map.empty))) (trim ''  Python '') \<le> 1
   \<and> distinct (skills (resumeData (initial_state Map.empty)))
   \<and> skills (resumeData (addSkill (resumeData (initial_state Map.empty)) ''  Python ''
        (initial_state Map.empty))) = [''Python'']
   \<and> (let st1 = addSkill (resumeData (initial_state Map.empty)) ''  Python ''
                   (initial_state Map.empty);
            st2 = addSkill (resumeData st1) ''Python'' st1
        in count_list (skills (resumeData st2)) ''Python'' = 1)"
proof -
  note t = trim_Python
  have s: "skills (resumeData (initial_state Map.empty)) = []"
    by (simp add: initial_state_def initial_resumeData_def)
  show ?thesis
    using addSkill_trims_and_rejects_duplicates
      [where skill = "''  Python ''" and skill' = "''Python''"
         and st = "initial_state Map.empty"]
    by (simp add: t s)
qed

lemma dom_initial_personalInfo:
  "dom (personalInfo (resumeData (initial_state store))) = set personal_fields"
  by (simp add: initial_state_def initial_resumeData_def dom_map_of_conv_image_fst image_image)

text \<open>
  C9, as stated, fails: the handler takes any string as the field name and writes it
  through a computed key, so a name outside the seven becomes a new property.
\<close>

theorem personalInfo_fixed_shape_counterexample:
  "dom (personalInfo (resumeData (initial_state Map.empty))) = set personal_fields
   \<and> dom (personalInfo (resumeData
        (handlePersonalInfoChange ''nickname'' ''Sam'' (initial_state Map.empty))))
      \<noteq> set personal_fields"
proof -
  have d: "dom (personalInfo (resumeData (initial_state Map.empty))) = set personal_fields"
    by (rule dom_initial_personalInfo)
  have "''nickname'' \<notin> set personal_fields"
    by (simp add: personal_fields_def)
  moreover have "''nickname'' \<in> dom (personalInfo (resumeData
        (handlePersonalInfoChange ''nickname'' ''Sam'' (initial_state Map.empty))))"
    by (simp add: resumeData_handlePersonalInfoChange)
  ultimately show ?thesis using d by metis
qed

text \<open>
  C9 (amended). \<^verbatim>\<open>handlePersonalInfoChange(field, value)\<close> sets the property \<open>field\<close> of
  \<^verbatim>\<open>personalInfo\<close> to \<open>value\<close> and changes nothing else in the record: the properties
  of \<^verbatim>\<open>personalInfo\<close> afterwards are those it had before together with \<open>field\<close>. When
  \<open>field\<close> is one of the seven names and \<^verbatim>\<open>personalInfo\<close> consists of the seven fields,
  it still consists of exactly those seven fields.
\<close>

theorem handlePersonalInfoChange_sets_one_field:
  fixes st :: builder_state
  shows
  "(let r = resumeData st;
        r' = resumeData (handlePersonalInfoChange field v st)
    in personalInfo r' field = Some v
       \<and> (\<forall>g. g \<noteq> field \<longrightarrow> personalInfo r' g = personalInfo r g)
       \<and> dom (personalInfo r') = insert field (dom (personalInfo r))
       \<and> experience r' = experience r \<and> education r' = education r
       \<and> skills r' = skills r \<and> projects r' = projects r
       \<and> (field \<in> set personal_fields \<and> dom (personalInfo r) = set personal_fields \<longrightarrow>
            dom (personalInfo r') = set personal_fields))"
  unfolding Let_def by (auto simp: resumeData_handlePersonalInfoChange)

theorem handlePersonalInfoChange_sets_one_field_witness:
  "''email'' \<in> set personal_fields
   \<and> dom (personalInfo (resumeData (initial_state Map.empty))) = set personal_fields
   \<and> personalInfo (resumeData
        (handlePersonalInfoChange ''email'' ''sam@example.org'' (initial_state Map.empty)))
        ''email'' = Some ''sam@example.org''
   \<and> personalInfo (resumeData
        (handlePersonalInfoChange ''email'' ''sam@example.org'' (initial_state Map.empty)))
        ''name'' = Some []
   \<and> dom (personalInfo (resumeData
        (handlePersonalInfoChange ''email'' ''sam@example.org'' (initial_state Map.empty))))
      = set personal_fields"
proof -
  have d: "dom (personalInfo (resumeData (initial_state Map.empty))) = set personal_fields"
    by (rule dom_initial_personalInfo)
  have n: "personalInfo (resumeData (initial_state Map.empty)) ''name'' = Some []"
    by (simp add: initial_state_def initial_resumeData_def personal_fields_def)
  have m: "''email'' \<in> set personal_fields" "''name'' \<noteq> ''email''"
    by (simp_all add: personal_fields_def)
  show ?thesis
    using handlePersonalInfoChange_sets_one_field
      [where field = "''email''" and v = "''sam@example.org''"
         and st = "initial_state Map.empty"] d n m
    unfolding Let_def by metis
qed

lemma resumeData_filled_state: "resumeData filled_state = filled_resumeData"
  by (simp add: filled_state_def)

lemma resumeData_imported_without_projects:
  "resumeData imported_without_projects = initial_resumeData\<lparr> projects := None \<rparr>"
  by (simp add: imported_without_projects_def)

text \<open>
  C7, as stated, fails for the projects handlers: they read the list as
  \<^verbatim>\<open>prev.projects || []\<close> and store the result, so on a record without a \<^verbatim>\<open>projects\<close>
  property an update at an index that addresses nothing leaves the record with an empty
  \<^verbatim>\<open>projects\<close> list where it had none.
\<close>

theorem out_of_range_noop_counterexample:
  "out_of_range 0 (or_empty (projects (resumeData imported_without_projects)))
   \<and> projects (resumeData imported_without_projects) = None
   \<and> projects (resumeData (updateProject 0 ''name'' ''Editor'' imported_without_projects))
       = Some []
   \<and> resumeData (updateProject 0 ''name'' ''Editor'' imported_without_projects)
       \<noteq> resumeData imported_without_projects"
proof -
  have p: "projects (resumeData imported_without_projects) = None"
    by (simp add: resumeData_imported_without_projects)
  have q: "projects (resumeData (updateProject 0 ''name'' ''Editor'' imported_without_projects))
       = Some []"
    by (simp add: resumeData_updateProject p or_empty_def)
  have "out_of_range 0 (or_empty (projects (resumeData imported_without_projects)))"
    by (simp add: p or_empty_def out_of_range_def)
  moreover have "resumeData (updateProject 0 ''name'' ''Editor'' imported_without_projects)
       \<noteq> resumeData imported_without_projects"
    using p q by (metis option.distinct(1))
  ultimately show ?thesis using p q by simp
qed

text \<open>
  C7 (amended). For an index that addresses no entry of the list (negative, or at least
  its length), \<^verbatim>\<open>updateExperience\<close>, \<^verbatim>\<open>removeExperience\<close>, \<^verbatim>\<open>updateEducation\<close>,
  \<^verbatim>\<open>removeEducation\<close> and \<^verbatim>\<open>removeSkill\<close> leave the record unchanged, and so do
  \<^verbatim>\<open>updateProject\<close> and \<^verbatim>\<open>removeProject\<close> on a record that has a \<^verbatim>\<open>projects\<close> list; on a
  record without one they change nothing but \<^verbatim>\<open>projects\<close>, which becomes the empty list.
  No handler has a failing branch.
\<close>

theorem out_of_range_index_is_noop:
  fixes st :: builder_state
  shows
  "(let r = resumeData st
    in (out_of_range index (experience r) \<longrightarrow>
          resumeData (updateExperience index field v st) = r
          \<and> resumeData (removeExperience index st) = r)
       \<and> (out_of_range index (education r) \<longrightarrow>
          resumeData (updateEducation index field v st) = r
          \<and> resumeData (removeEducation index st) = r)
       \<and> (out_of_range index (skills r) \<longrightarrow> resumeData (removeSkill index st) = r)
       \<and> (out_of_range index (or_empty (projects r)) \<longrightarrow>
          resumeData (updateProject index field v st)
            = r\<lparr> projects := Some (or_empty (projects r)) \<rparr>
          \<and> resumeData (removeProject index st)
            = r\<lparr> projects := Some (or_empty (projects r)) \<rparr>)
       \<and> (out_of_range index (or_empty (projects r)) \<and> projects r \<noteq> None \<longrightarrow>
          resumeData (updateProject index field v st) = r
          \<and> resumeData (removeProject index st) = r))"
  unfolding Let_def out_of_range_def
  by (auto simp: resumeData_updateExperience resumeData_removeExperience
      resumeData_updateEducation resumeData_removeEducation resumeData_removeSkill
      resumeData_updateProject resumeData_removeProject or_empty_def)

theorem out_of_range_index_is_noop_witness:
  "out_of_range 1 (experience (resumeData filled_state))
   \<and> out_of_range 1 (education (resumeData filled_state))
   \<and> out_of_range 1 (skills (resumeData filled_state))
   \<and> out_of_range 1 (or_empty (projects (resumeData filled_state)))
   \<and> projects (resumeData filled_state) \<noteq> None
   \<and> resumeData (updateExperience 1 ''title'' ''Engineer'' filled_state) = resumeData filled_state
   \<and> resumeData (removeExperience 1 filled_state) = resumeData filled_state
   \<and> resumeData (updateEducation 1 ''title'' ''Engineer'' filled_state) = resumeData filled_state
   \<and> resumeData (removeEducation 1 filled_state) = resumeData filled_state
   \<and> resumeData (removeSkill 1 filled_state) = resumeData filled_state
   \<and> resumeData (updateProject 1 ''title'' ''Engineer'' filled_state) = resumeData filled_state
   \<and> resumeData (removeProject 1 filled_state) = resumeData filled_state"
proof -
  have h: "out_of_range 1 (experience (resumeData filled_state))"
    "out_of_range 1 (education (resumeData filled_state))"
    "out_of_range 1 (skills (resumeData filled_state))"
    "out_of_range 1 (or_empty (projects (resumeData filled_state)))"
    "projects (resumeData filled_state) \<noteq> None"
    by (simp_all add: resumeData_filled_state filled_resumeData_def out_of_range_def or_empty_def)
  show ?thesis
    using out_of_range_index_is_noop
      [where st = filled_state and index = 1 and field = "''title''" and v = "''Engineer''"] h
    unfolding Let_def by blast
qed

text \<open>
  C10. The completion percentage depends on the record only through the seven presence
  predicates: two records on which they agree have the same score. So setting phone,
  location, linkedin or github, updating a field of an experience, education or project
  entry, or replacing a skill by another text never changes the score.
\<close>

theorem completion_score_depends_only_on_presence:
  fixes st :: builder_state
  shows
  "(completion_predicates r1 = completion_predicates r2 \<longrightarrow>
      getCompletionPercentage r1 = getCompletionPercentage r2)
   \<and> (field \<in> set [''phone'', ''location'', ''linkedin'', ''github''] \<longrightarrow>
        getCompletionPercentage (resumeData (handlePersonalInfoChange field v st))
          = getCompletionPercentage (resumeData st))
   \<and> getCompletionPercentage (resumeData (updateExperience index f v st))
        = getCompletionPercentage (resumeData st)
   \<and> getCompletionPercentage (resumeData (updateEducation index f v st))
        = getCompletionPercentage (resumeData st)
   \<and> getCompletionPercentage (resumeData (updateProject index f v st))
        = getCompletionPercentage (resumeData st)
   \<and> getCompletionPercentage (r1\<lparr> skills := (skills r1)[k := v] \<rparr>)
        = getCompletionPercentage r1"
proof (intro conjI impI)
  assume "completion_predicates r1 = completion_predicates r2"
  then show "getCompletionPercentage r1 = getCompletionPercentage r2"
    by (rule score_agree)
next
  assume "field \<in> set [''phone'', ''location'', ''linkedin'', ''github'']"
  then have "completion_predicates (resumeData (handlePersonalInfoChange field v st))
      = completion_predicates (resumeData st)"
    by (auto simp: completion_predicates_def resumeData_handlePersonalInfoChange)
  then show "getCompletionPercentage (resumeData (handlePersonalInfoChange field v st))
          = getCompletionPercentage (resumeData st)"
    by (rule score_agree)
next
  have "completion_predicates (resumeData (updateExperience index f v st))
      = completion_predicates (resumeData st)"
    by (simp add: completion_predicates_def resumeData_updateExperience)
  then show "getCompletionPercentage (resumeData (updateExperience index f v st))
        = getCompletionPercentage (resumeData st)"
    by (rule score_agree)
next
  have "completion_predicates (resumeData (updateEducation index f v st))
      = completion_predicates (resumeData st)"
    by (simp add: completion_predicates_def resumeData_updateEducation)
  then show "getCompletionPercentage (resumeData (updateEducation index f v st))
        = getCompletionPercentage (resumeData st)"
    by (rule score_agree)
next
  have "completion_predicates (resumeData (updateProject index f v st))
      = completion_predicates (resumeData st)"
    by (cases "projects (resumeData st)")
      (simp_all add: completion_predicates_def resumeData_updateProject or_empty_def)
  then show "getCompletionPercentage (resumeData (updateProject index f v st))
        = getCompletionPercentage (resumeData st)"
    by (rule score_agree)
next
  have "completion_predicates (r1\<lparr> skills := (skills r1)[k := v] \<rparr>) = completion_predicates r1"
    by (simp add: completion_predicates_def)
  then show "getCompletionPercentage (r1\<lparr> skills := (skills r1)[k := v] \<rparr>)
        = getCompletionPercentage r1"
    by (rule score_agree)
qed

theorem completion_score_depends_only_on_presence_witness:
  "completion_predicates (filled_resumeData\<lparr> skills := [''Go'', ''Rust''] \<rparr>)
     = completion_predicates filled_resumeData
   \<and> getCompletionPercentage (filled_resumeData\<lparr> skills := [''Go'', ''Rust''] \<rparr>)
     = getCompletionPercentage filled_resumeData
   \<and> ''phone'' \<in> set [''phone'', ''location'', ''linkedin'', ''github'']
   \<and> getCompletionPercentage (resumeData (handlePersonalInfoChange ''phone'' ''555'' filled_state))
     = getCompletionPercentage (resumeData filled_state)"
proof -
  have h: "completion_predicates (filled_resumeData\<lparr> skills := [''Go'', ''Rust''] \<rparr>)
     = completion_predicates filled_resumeData"
    by (simp add: completion_predicates_def filled_resumeData_def)
  show ?thesis
    using completion_score_depends_only_on_presence
      [where ?r1.0 = "filled_resumeData\<lparr> skills := [''Go'', ''Rust''] \<rparr>"
         and ?r2.0 = filled_resumeData and field = "''phone''" and v = "''555''"
         and st = filled_state] h
    by simp
qed

subsection \<open>JSON: what is written is read back\<close>

lemma hex_value_hex_digit: "d < 16 \<Longrightarrow> hex_value (hex_digit d) = Some d"
proof -
  assume "d < 16"
  then have "d = 0 \<or> d = 1 \<or> d = 2 \<or> d = 3 \<or> d = 4 \<or> d = 5 \<or> d = 6 \<or> d = 7
      \<or> d = 8 \<or> d = 9 \<or> d = 10 \<or> d = 11 \<or> d = 12 \<or> d = 13 \<or> d = 14 \<or> d = 15"
    by arith
  then show ?thesis
    by (elim disjE) (simp_all add: hex_digit_def hex_value_def)
qed

lemma unicode_escape_control:
  assumes "(of_char c :: nat) < 32"
  shows "unicode_escape (CHR ''0'') (CHR ''0'') (hex_digit (of_char c div 16))
           (hex_digit (of_char c mod 16)) = Some c"
proof -
  have z: "hex_value (CHR ''0'') = Some 0"
    by (simp add: hex_value_def)
  have h: "hex_value (hex_digit (of_char c div 16)) = Some (of_char c div 16)"
    "hex_value (hex_digit (of_char c mod 16)) = Some (of_char c mod 16)"
    using assms by (simp_all add: hex_value_hex_digit)
  have "(of_char c div 16) * 16 + of_char c mod 16 = (of_char c :: nat)"
    by simp
  then show ?thesis
    using assms by (simp add: unicode_escape_def z h)
qed

lemma parse_chars_escape:
  "parse_chars (escape_char c @ tail) = consed c (parse_chars tail)"
proof -
  consider "c = CHR 0x22" | "c = CHR 0x5C" | "c = CHR 0x08" | "c = CHR 0x0C" | "c = CHR 0x0A"
    | "c = CHR 0x0D" | "c = CHR 0x09"
    | "c \<notin> {CHR 0x22, CHR 0x5C, CHR 0x08, CHR 0x0C, CHR 0x0A, CHR 0x0D, CHR 0x09}"
      "(of_char c :: nat) < 32"
    | "c \<notin> {CHR 0x22, CHR 0x5C, CHR 0x08, CHR 0x0C, CHR 0x0A, CHR 0x0D, CHR 0x09}"
      "\<not> (of_char c :: nat) < 32"
    by blast
  then show ?thesis
  proof cases
    case 8
    then show ?thesis
      by (simp add: escape_char_def unicode_escape_control)
  next
    case 9
    then show ?thesis
      by (simp add: escape_char_def)
  qed (simp_all add: escape_char_def unescape_def)
qed

lemma parse_chars_quoted:
  "parse_chars (concat (map escape_char s) @ CHR 0x22 # rest) = Some (s, rest)"
  by (induction s) (simp_all add: parse_chars_escape consed_def)

lemma skip_ws_head: "\<not> json_space c \<Longrightarrow> skip_ws (c # cs) = c # cs"
  by (simp add: skip_ws_def)

lemma json_space_marks [simp]:
  "\<not> json_space (CHR 0x22)" "\<not> json_space (CHR ''['')" "\<not> json_space (CHR '']'')"
  "\<not> json_space (CHR ''{'')" "\<not> json_space (CHR ''}'')" "\<not> json_space (CHR '','')"
  "\<not> json_space (CHR '':'')"
  by (simp_all add: json_space_def)

lemma stringify_json_head:
  "\<exists>c cs. stringify_json j = c # cs \<and> c \<in> {CHR 0x22, CHR ''['', CHR ''{''}"
  by (cases j) (simp_all add: quote_def)

lemma skip_ws_stringify_json [simp]:
  "skip_ws (stringify_json j @ rest) = stringify_json j @ rest"
proof -
  obtain c cs where "stringify_json j = c # cs" "c \<in> {CHR 0x22, CHR ''['', CHR ''{''}"
    using stringify_json_head by blast
  then show ?thesis by (auto simp: skip_ws_head)
qed

lemma skip_ws_quote [simp]: "skip_ws (quote k @ rest) = quote k @ rest"
  by (simp add: quote_def skip_ws_head)

lemma stringify_json_not_close:
  "stringify_json j @ rest = d # ds \<Longrightarrow> d \<noteq> CHR '']'' \<and> d \<noteq> CHR ''}''"
  using stringify_json_head[of j] by auto

lemma parse_elements_printed:
  assumes "\<And>x n rest. x \<in> set xs \<Longrightarrow> weight x \<le> n \<Longrightarrow>
             parse_value n (stringify_json x @ rest) = Some (x, rest)"
    and "xs \<noteq> []"
    and "sum_list (map (\<lambda>x. Suc (weight x)) xs) \<le> n"
  shows "parse_elements n (join_commas (map stringify_json xs) @ CHR '']'' # rest)
           = Some (xs, rest)"
  using assms
proof (induction xs arbitrary: n)
  case Nil
  then show ?case by simp
next
  case (Cons x xs)
  obtain m where n: "n = Suc m" and wx: "weight x \<le> m"
    and rest_fuel: "sum_list (map (\<lambda>x. Suc (weight x)) xs) \<le> m"
    using Cons.prems(3) by (cases n) auto
  have px: "parse_value m (stringify_json x @ tail) = Some (x, tail)" for tail
    using Cons.prems(1)[of x m tail] wx by simp
  show ?case
  proof (cases xs)
    case Nil
    then show ?thesis
      using px[of "CHR '']'' # rest"] by (simp add: n skip_ws_head)
  next
    case (Cons y ys)
    have ih: "parse_elements m (join_commas (map stringify_json xs) @ CHR '']'' # rest)
        = Some (xs, rest)"
      using Cons.IH[of m] Cons.prems(1) rest_fuel Cons by simp
    have "join_commas (map stringify_json (x # xs)) @ CHR '']'' # rest
        = stringify_json x @ (CHR '','' # join_commas (map stringify_json xs) @ CHR '']'' # rest)"
      using Cons by simp
    then show ?thesis
      using px[of "CHR '','' # join_commas (map stringify_json xs) @ CHR '']'' # rest"] ih
      by (simp add: n skip_ws_head consed_def)
  qed
qed

lemma parse_members_printed:
  assumes "\<And>p n rest. p \<in> set ps \<Longrightarrow> weight (snd p) \<le> n \<Longrightarrow>
             parse_value n (stringify_json (snd p) @ rest) = Some (snd p, rest)"
    and "ps \<noteq> []"
    and "sum_list (map (\<lambda>p. Suc (weight (snd p))) ps) \<le> n"
  shows "parse_members n
           (join_commas (map (\<lambda>p. quote (fst p) @ CHR '':'' # stringify_json (snd p)) ps)
              @ CHR ''}'' # rest)
           = Some (ps, rest)"
  using assms
proof (induction ps arbitrary: n)
  case Nil
  then show ?case by simp
next
  case (Cons p ps)
  obtain m where n: "n = Suc m" and wp: "weight (snd p) \<le> m"
    and rest_fuel: "sum_list (map (\<lambda>p. Suc (weight (snd p))) ps) \<le> m"
    using Cons.prems(3) by (cases n) auto
  have pv: "parse_value m (stringify_json (snd p) @ tail) = Some (snd p, tail)" for tail
    using Cons.prems(1)[of p m tail] wp by simp
  have member: "parse_members (Suc m)
        ((quote (fst p) @ CHR '':'' # stringify_json (snd p)) @ d # ds)
      = (if d = CHR '','' then consed p (parse_members m ds)
         else if d = CHR ''}'' then Some ([p], ds) else None)"
    if "\<not> json_space d" for d ds
    using pv[of "d # ds"] that
    by (simp add: quote_def skip_ws_head parse_chars_quoted)
  show ?case
  proof (cases ps)
    case Nil
    then show ?thesis
      using member[of "CHR ''}''" rest] by (simp add: n)
  next
    case (Cons q qs)
    have ih: "parse_members m
        (join_commas (map (\<lambda>p. quote (fst p) @ CHR '':'' # stringify_json (snd p)) ps)
           @ CHR ''}'' # rest) = Some (ps, rest)"
      using Cons.IH[of m] Cons.prems(1) rest_fuel Cons by simp
    have "join_commas (map (\<lambda>p. quote (fst p) @ CHR '':'' # stringify_json (snd p)) (p # ps))
          @ CHR ''}'' # rest
        = (quote (fst p) @ CHR '':'' # stringify_json (snd p))
          @ CHR '','' # (join_commas (map (\<lambda>p. quote (fst p) @ CHR '':'' # stringify_json (snd p)) ps)
          @ CHR ''}'' # rest)"
      using Cons by simp
    then show ?thesis
      using member[of "CHR '',''"] ih by (simp add: n consed_def)
  qed
qed

lemma parse_value_printed:
  "weight j \<le> n \<Longrightarrow> parse_value n (stringify_json j @ rest) = Some (j, rest)"
proof (induction j arbitrary: n rest)
  case (JString s)
  then obtain m where "n = Suc m" by (cases n) auto
  then show ?case
    by (simp add: quote_def skip_ws_head parse_chars_quoted)
next
  case (JArray xs)
  then obtain m where n: "n = Suc m" and fuel: "sum_list (map (\<lambda>x. Suc (weight x)) xs) \<le> m"
    by (cases n) auto
  show ?case
  proof (cases xs)
    case Nil
    then show ?thesis by (simp add: n skip_ws_head)
  next
    case (Cons y ys)
    then have ne: "xs \<noteq> []" by simp
    have els: "parse_elements m (join_commas (map stringify_json xs) @ CHR '']'' # rest)
        = Some (xs, rest)"
      using JArray.IH ne fuel by (rule parse_elements_printed)
    obtain d ds where hd: "join_commas (map stringify_json xs) @ CHR '']'' # rest = d # ds"
      and d: "d \<in> {CHR 0x22, CHR ''['', CHR ''{''}"
      using Cons stringify_json_head[of y] by (cases ys) auto
    have "skip_ws (d # ds) = d # ds" "d \<noteq> CHR '']''"
      using d by (auto simp: skip_ws_head)
    then show ?thesis
      using els by (simp add: n skip_ws_head hd)
  qed
next
  case (JObject ps)
  then obtain m where n: "n = Suc m"
    and fuel: "sum_list (map (\<lambda>p. Suc (weight (snd p))) ps) \<le> m"
    by (cases n) auto
  show ?case
  proof (cases ps)
    case Nil
    then show ?thesis by (simp add: n skip_ws_head)
  next
    case (Cons q qs)
    then have ne: "ps \<noteq> []" by simp
    have step: "parse_value k (stringify_json (snd p) @ tail) = Some (snd p, tail)"
      if "p \<in> set ps" "weight (snd p) \<le> k" for p k tail
      using JObject.IH[of p "snd p" k tail] that by (cases p) auto
    have mem: "parse_members m
        (join_commas (map (\<lambda>p. quote (fst p) @ CHR '':'' # stringify_json (snd p)) ps)
           @ CHR ''}'' # rest) = Some (ps, rest)"
      using step ne fuel by (rule parse_members_printed)
    obtain ds where hd:
      "join_commas (map (\<lambda>p. quote (fst p) @ CHR '':'' # stringify_json (snd p)) ps)
         @ CHR ''}'' # rest = CHR 0x22 # ds"
      using Cons by (cases qs) (auto simp: quote_def)
    show ?thesis
      using mem by (simp add: n skip_ws_head hd)
  qed
qed

lemma weight_sum_le_join:
  assumes "\<And>x. x \<in> set xs \<Longrightarrow> w x \<le> length (f x)"
  shows "sum_list (map (\<lambda>x. Suc (w x)) xs) \<le> Suc (length (join_commas (map f xs)))"
  using assms
proof (induction xs)
  case Nil
  then show ?case by simp
next
  case (Cons x xs)
  then show ?case by (cases xs) (auto simp: add_mono)
qed

lemma weight_le_length: "weight j \<le> length (stringify_json j)"
proof (induction j)
  case (JString s)
  then show ?case by (simp add: quote_def)
next
  case (JArray xs)
  then show ?case
    using weight_sum_le_join[of xs weight stringify_json] by simp
next
  case (JObject ps)
  have "weight (snd p) \<le> length (quote (fst p) @ CHR '':'' # stringify_json (snd p))"
    if "p \<in> set ps" for p
    using JObject[of p "snd p"] that by (cases p) (auto intro: le_SucI trans_le_add2)
  then show ?case
    using weight_sum_le_join[of ps "\<lambda>p. weight (snd p)"
        "\<lambda>p. quote (fst p) @ CHR '':'' # stringify_json (snd p)"]
    by simp
qed

lemma parse_json_stringify_json: "parse_json (stringify_json j) = Some j"
proof -
  have "weight j \<le> Suc (2 * length (stringify_json j))"
    using weight_le_length[of j] by simp
  then have "parse_value (Suc (2 * length (stringify_json j))) (stringify_json j @ [])
      = Some (j, [])"
    by (rule parse_value_printed)
  then show ?thesis
    by (simp add: parse_json_def skip_ws_def)
qed

lemma those_map_Some:
  "(\<And>x. x \<in> set xs \<Longrightarrow> f (g x) = Some x) \<Longrightarrow> those (map (f \<circ> g) xs) = Some xs"
  by (induction xs) simp_all

lemma those_properties:
  "those (map (\<lambda>p. map_option (Pair (fst p)) (string_of_json (snd p)))
       (List.map_filter (\<lambda>k. map_option (\<lambda>v. (k, JString v)) (obj k)) ks))
   = Some (List.map_filter (\<lambda>k. map_option (Pair k) (obj k)) ks)"
proof (induction ks)
  case Nil
  then show ?case by (simp add: map_filter_simps)
next
  case (Cons k ks)
  then show ?case by (cases "obj k") (simp_all add: map_filter_simps)
qed

lemma map_of_graph:
  "(\<And>k v. (k, v) \<in> set l \<Longrightarrow> obj k = Some v) \<Longrightarrow>
   map_of l x = (if x \<in> fst ` set l then obj x else None)"
proof (induction l)
  case Nil
  then show ?case by simp
next
  case (Cons p l)
  obtain k v where p: "p = (k, v)" by (cases p)
  have "obj k = Some v" using Cons.prems[of k v] p by simp
  moreover have "map_of l x = (if x \<in> fst ` set l then obj x else None)"
    using Cons.IH Cons.prems by simp
  ultimately show ?case by (auto simp: p)
qed

lemma properties_graph:
  "(k, v) \<in> set (List.map_filter (\<lambda>k. map_option (Pair k) (obj k)) ks)
     \<longleftrightarrow> k \<in> set ks \<and> obj k = Some v"
  by (induction ks) (auto simp: map_filter_simps split: option.splits)

lemma properties_keys:
  "fst ` set (List.map_filter (\<lambda>k. map_option (Pair k) (obj k)) ks) = set ks \<inter> dom obj"
proof (induction ks)
  case Nil
  then show ?case by (simp add: map_filter_simps)
next
  case (Cons k ks)
  then show ?case by (cases "obj k") (auto simp: map_filter_simps)
qed

lemma object_of_json_of_object:
  assumes "set (keys obj) = dom obj"
  shows "object_of_json (json_of_object keys obj) = Some obj"
proof -
  define l where "l = List.map_filter (\<lambda>k. map_option (Pair k) (obj k)) (keys obj)"
  have graph: "obj k = Some v" if "(k, v) \<in> set (rev l)" for k v
    using that by (simp add: l_def properties_graph)
  have ks: "fst ` set (rev l) = dom obj"
    using assms by (simp add: l_def properties_keys)
  have "map_of (rev l) x = obj x" for x
  proof -
    have "map_of (rev l) x = (if x \<in> fst ` set (rev l) then obj x else None)"
      using graph by (rule map_of_graph)
    then show ?thesis
      unfolding ks by (cases "obj x") (simp_all add: dom_def)
  qed
  then have "map_of (rev l) = obj" by (rule ext)
  moreover have "json_of_object keys obj
      = JObject (List.map_filter (\<lambda>k. map_option (\<lambda>v. (k, JString v)) (obj k)) (keys obj))"
    by (simp add: json_of_object_def)
  ultimately show ?thesis
    by (simp add: those_properties l_def[symmetric])
qed

lemma objects_of_json:
  assumes "\<And>obj. obj \<in> set xs \<Longrightarrow> set (keys obj) = dom obj"
  shows "those (map (object_of_json \<circ> json_of_object keys) xs) = Some xs"
  using assms by (intro those_map_Some object_of_json_of_object)

lemma resumeData_of_json_of_resumeData:
  assumes "own_keys keys r"
  shows "resumeData_of_json (json_of_resumeData keys r) = Some r"
proof -
  have pi: "object_of_json (json_of_object keys (personalInfo r)) = Some (personalInfo r)"
    using assms by (intro object_of_json_of_object) (simp add: own_keys_def objects_def)
  have ex: "those (map (object_of_json \<circ> json_of_object keys) (experience r))
      = Some (experience r)"
    using assms by (intro objects_of_json) (simp add: own_keys_def objects_def)
  have ed: "those (map (object_of_json \<circ> json_of_object keys) (education r))
      = Some (education r)"
    using assms by (intro objects_of_json) (simp add: own_keys_def objects_def)
  have sk: "those (map (string_of_json \<circ> JString) (skills r)) = Some (skills r)"
    by (intro those_map_Some) simp
  show ?thesis
  proof (cases "projects r")
    case None
    then show ?thesis
      by (simp add: json_of_resumeData_def pi ex ed sk del: object_of_json.simps)
  next
    case (Some ps)
    have pj: "those (map (object_of_json \<circ> json_of_object keys) ps) = Some ps"
      using assms Some by (intro objects_of_json) (simp add: own_keys_def objects_def or_empty_def)
    show ?thesis
      using Some by (simp add: json_of_resumeData_def pi ex ed sk pj del: object_of_json.simps)
  qed
qed

lemma json_parse_json_stringify:
  "own_keys keys r \<Longrightarrow> json_parse (json_stringify keys r) = Some r"
  by (simp add: json_parse_def json_stringify_def parse_json_stringify_json
      resumeData_of_json_of_resumeData)

lemma json_stringify_not_empty: "json_stringify keys r \<noteq> []"
  by (simp add: json_stringify_def json_of_resumeData_def)

lemma declared_keys_dom:
  "dom obj \<subseteq> set declared_names \<Longrightarrow> set (declared_keys obj) = dom obj"
  by (auto simp: declared_keys_def)

lemma declared_subsets:
  "set personal_fields \<subseteq> set declared_names"
  "set experience_fields \<subseteq> set declared_names"
  "set education_fields \<subseteq> set declared_names"
  "set project_fields \<subseteq> set declared_names"
  by (simp_all add: personal_fields_def experience_fields_def education_fields_def
      project_fields_def declared_names_def)

lemma well_formed_dom:
  assumes "well_formed r" "obj \<in> objects r"
  shows "dom obj \<subseteq> set declared_names"
proof -
  from assms(2) consider "obj = personalInfo r" | "obj \<in> set (experience r)"
    | "obj \<in> set (education r)" | "obj \<in> set (or_empty (projects r))"
    unfolding objects_def by blast
  then show ?thesis
  proof cases
    case 1
    then have "dom obj = set personal_fields"
      using assms(1) by (simp add: well_formed_def)
    then show ?thesis
      by (simp only: declared_subsets)
  next
    case 2
    then have "dom obj = set experience_fields"
      using assms(1) by (simp add: well_formed_def)
    then show ?thesis
      by (simp only: declared_subsets)
  next
    case 3
    then have "dom obj = set education_fields"
      using assms(1) by (simp add: well_formed_def)
    then show ?thesis
      by (simp only: declared_subsets)
  next
    case 4
    then have "dom obj = set project_fields"
      using assms(1) by (simp add: well_formed_def)
    then show ?thesis
      by (simp only: declared_subsets)
  qed
qed

lemma well_formed_own_keys:
  assumes "well_formed r"
  shows "own_keys declared_keys r"
  unfolding own_keys_def
proof
  fix obj
  assume "obj \<in> objects r"
  with assms have "dom obj \<subseteq> set declared_names"
    by (rule well_formed_dom)
  then show "set (declared_keys obj) = dom obj"
    by (rule declared_keys_dom)
qed

text \<open>The model writes the three sample records as the browser does.\<close>

lemma printed_initial: "json_stringify declared_keys initial_resumeData = initial_json"
  by code_simp

lemma printed_no_projects:
  "json_stringify declared_keys (initial_resumeData\<lparr> projects := None \<rparr>) = no_projects_json"
  by code_simp

lemma printed_typed: "json_stringify declared_keys typed_resumeData = typed_json"
  by code_simp

subsection \<open>Saving and loading\<close>

lemma saveToLocalStorage_rejected:
  fixes st :: builder_state
  assumes "quota_exceeded plat (localStorage st) ''resumeData'' (JSON_stringify plat rendered)"
  shows "saveToLocalStorage plat rendered st =
     st\<lparr> isSaving := False,
         setItem_calls := setItem_calls st @ [(clock st, ''resumeData'', JSON_stringify plat rendered)],
         toasts := toasts st @ [ToastError ''Failed to save data''] \<rparr>"
  using assms by (simp add: saveToLocalStorage_def localStorage_setItem_def Let_def)

lemma saveToLocalStorage_accepted:
  fixes st :: builder_state
  assumes "\<not> quota_exceeded plat (localStorage st) ''resumeData'' (JSON_stringify plat rendered)"
  shows "saveToLocalStorage plat rendered st =
     st\<lparr> isSaving := True,
         setItem_calls := setItem_calls st @ [(clock st, ''resumeData'', JSON_stringify plat rendered)],
         localStorage := (localStorage st)(''resumeData'' \<mapsto> JSON_stringify plat rendered),
         lastSaved := Some (clock st),
         timers := timers st @ [Timer (next_timer_id st) (clock st + 500) ClearSavingCallback],
         next_timer_id := next_timer_id st + 1 \<rparr>"
  using assms
  by (simp add: saveToLocalStorage_def localStorage_setItem_def setTimeout_def Let_def)

lemma localStorage_autosave_effect [simp]:
  "localStorage (autosave_effect st) = localStorage st"
  by (simp add: autosave_effect_def clearTimeout_def setTimeout_def Let_def split: option.splits)

lemma loadFromLocalStorage_parsed:
  fixes st :: builder_state
  assumes "localStorage st ''resumeData'' = Some saved" "saved \<noteq> []"
    "JSON_parse plat saved = Some d"
  shows "resumeData (loadFromLocalStorage plat st) = d"
  using assms by (simp add: loadFromLocalStorage_def Let_def)

text \<open>
  C8. When \<^verbatim>\<open>localStorage.setItem\<close> throws during a save, the component shows the error
  toast, is not saving any more, has set no timer (so nothing retries the save), has not
  recorded a time of last save, and holds the same record and the same stored data as
  before. The same holds when the save was the autosave timer's callback: the timer that
  ran is gone and no other timer has appeared.
\<close>

theorem save_failure_reported_without_retry:
  fixes st :: builder_state
  assumes "quota_exceeded plat (localStorage st) ''resumeData'' (JSON_stringify plat rendered)"
  shows
  "(let st' = saveToLocalStorage plat rendered st
    in toasts st' = toasts st @ [ToastError ''Failed to save data'']
       \<and> isSaving st' = False
       \<and> timers st' = timers st \<and> autosave_handle st' = autosave_handle st
       \<and> lastSaved st' = lastSaved st
       \<and> resumeData st' = resumeData st
       \<and> localStorage st' = localStorage st)
   \<and> (let st' = run_timer plat (Timer h d (SaveCallback rendered)) st
      in toasts st' = toasts st @ [ToastError ''Failed to save data'']
         \<and> isSaving st' = False
         \<and> timers st' = filter (\<lambda>t. timer_id t \<noteq> h) (timers st)
         \<and> lastSaved st' = lastSaved st
         \<and> resumeData st' = resumeData st
         \<and> localStorage st' = localStorage st)"
proof -
  let ?st = "st\<lparr> timers := filter (\<lambda>t. timer_id t \<noteq> h) (timers st), clock := max (clock st) d \<rparr>"
  have "quota_exceeded plat (localStorage ?st) ''resumeData'' (JSON_stringify plat rendered)"
    using assms by simp
  then have "run_timer plat (Timer h d (SaveCallback rendered)) st =
     ?st\<lparr> isSaving := False,
         setItem_calls := setItem_calls ?st @ [(clock ?st, ''resumeData'', JSON_stringify plat rendered)],
         toasts := toasts ?st @ [ToastError ''Failed to save data''] \<rparr>"
    unfolding run_timer_def Let_def by (simp add: saveToLocalStorage_rejected)
  then show ?thesis
    by (simp add: Let_def saveToLocalStorage_rejected[OF assms])
qed

theorem save_failure_reported_without_retry_witness:
  "quota_exceeded (sample_platform True) (localStorage (initial_state Map.empty)) ''resumeData''
     (JSON_stringify (sample_platform True) initial_resumeData)
   \<and> toasts (saveToLocalStorage (sample_platform True) initial_resumeData (initial_state Map.empty))
       = [ToastError ''Failed to save data'']
   \<and> isSaving (saveToLocalStorage (sample_platform True) initial_resumeData (initial_state Map.empty))
       = False
   \<and> timers (saveToLocalStorage (sample_platform True) initial_resumeData (initial_state Map.empty))
       = []
   \<and> lastSaved (saveToLocalStorage (sample_platform True) initial_resumeData (initial_state Map.empty))
       = None
   \<and> resumeData (saveToLocalStorage (sample_platform True) initial_resumeData (initial_state Map.empty))
       = initial_resumeData
   \<and> localStorage (saveToLocalStorage (sample_platform True) initial_resumeData (initial_state Map.empty))
       = Map.empty"
proof -
  have q: "quota_exceeded (sample_platform True) (localStorage (initial_state Map.empty))
     ''resumeData'' (JSON_stringify (sample_platform True) initial_resumeData)"
    by (simp add: sample_platform_def)
  show ?thesis
    using save_failure_reported_without_retry
      [where plat = "sample_platform True" and st = "initial_state Map.empty"
         and rendered = initial_resumeData, OF q] q
    by (simp add: Let_def initial_state_def)
qed

lemma load_after_save:
  fixes st st2 :: builder_state
  assumes "JSON_stringify plat r \<noteq> []"
    and "JSON_parse plat (JSON_stringify plat r) = Some r"
    and "\<not> quota_exceeded plat (localStorage st) ''resumeData'' (JSON_stringify plat r)"
  shows "resumeData (loadFromLocalStorage plat (saveToLocalStorage plat r st)) = r"
    and "localStorage st2 = localStorage (saveToLocalStorage plat r st) \<Longrightarrow>
         resumeData (loadFromLocalStorage plat st2) = r"
    and "resumeData (mount plat (localStorage (saveToLocalStorage plat r st))) = r"
proof -
  have stored: "localStorage (saveToLocalStorage plat r st) ''resumeData''
      = Some (JSON_stringify plat r)"
    by (simp add: saveToLocalStorage_accepted[OF assms(3)])
  show "resumeData (loadFromLocalStorage plat (saveToLocalStorage plat r st)) = r"
    using stored assms(1,2) by (rule loadFromLocalStorage_parsed)
  show "resumeData (loadFromLocalStorage plat st2) = r"
    if "localStorage st2 = localStorage (saveToLocalStorage plat r st)"
    using stored assms(1,2) unfolding that[symmetric] by (rule loadFromLocalStorage_parsed)
  show "resumeData (mount plat (localStorage (saveToLocalStorage plat r st))) = r"
    unfolding mount_def
    by (rule loadFromLocalStorage_parsed[OF _ assms(1,2)])
      (simp add: initial_state_def stored)
qed

lemma browser_round_trip:
  fixes st :: builder_state
  assumes "own_keys keys r"
    and "\<not> q (localStorage st) ''resumeData'' (json_stringify keys r)"
  shows "resumeData (loadFromLocalStorage (browser keys q)
           (saveToLocalStorage (browser keys q) r st)) = r
     \<and> (\<forall>st2 :: builder_state.
           localStorage st2 = localStorage (saveToLocalStorage (browser keys q) r st) \<longrightarrow>
           resumeData (loadFromLocalStorage (browser keys q) st2) = r)
     \<and> resumeData (mount (browser keys q)
           (localStorage (saveToLocalStorage (browser keys q) r st))) = r"
proof -
  have ne: "JSON_stringify (browser keys q) r \<noteq> []"
    by (simp add: browser_def json_stringify_not_empty)
  have rt: "JSON_parse (browser keys q) (JSON_stringify (browser keys q) r) = Some r"
    using assms(1) by (simp add: browser_def json_parse_json_stringify)
  have ok: "\<not> quota_exceeded (browser keys q) (localStorage st) ''resumeData''
      (JSON_stringify (browser keys q) r)"
    using assms(2) by (simp add: browser_def)
  show ?thesis
    using load_after_save[OF ne rt ok] by blast
qed

lemma well_formed_filled: "well_formed filled_resumeData"
  by (simp add: well_formed_def filled_resumeData_def or_empty_def personal_fields_def
      experience_fields_def education_fields_def project_fields_def empty_experience_def
      empty_education_def empty_project_def dom_map_of_conv_image_fst)

text \<open>
  C6. With \<^verbatim>\<open>JSON.stringify\<close> and \<^verbatim>\<open>JSON.parse\<close> as modelled, every well-formed record (its
  personal information has the seven fields, each experience, education and project
  entry its four) comes back from a save that the store accepts followed by a load: in
  the same session, in any session over the storage the save left, and when the
  component is mounted again over that storage. The same holds for any record, whatever
  the properties of its objects, when \<open>keys\<close> lists them.
\<close>

theorem save_then_load_round_trip:
  fixes st :: builder_state
  shows
  "(well_formed r
    \<and> \<not> q (localStorage st) ''resumeData'' (json_stringify declared_keys r) \<longrightarrow>
      (let plat = browser declared_keys q;
           saved = saveToLocalStorage plat r st
       in resumeData (loadFromLocalStorage plat saved) = r
          \<and> (\<forall>st2 :: builder_state.
                localStorage st2 = localStorage saved \<longrightarrow>
                resumeData (loadFromLocalStorage plat st2) = r)
          \<and> resumeData (mount plat (localStorage saved)) = r))
   \<and> (own_keys keys r
      \<and> \<not> q (localStorage st) ''resumeData'' (json_stringify keys r) \<longrightarrow>
        (let plat = browser keys q;
             saved = saveToLocalStorage plat r st
         in resumeData (loadFromLocalStorage plat saved) = r
            \<and> (\<forall>st2 :: builder_state.
                  localStorage st2 = localStorage saved \<longrightarrow>
                  resumeData (loadFromLocalStorage plat st2) = r)
            \<and> resumeData (mount plat (localStorage saved)) = r))"
proof (intro conjI impI)
  assume a: "well_formed r
    \<and> \<not> q (localStorage st) ''resumeData'' (json_stringify declared_keys r)"
  then have "own_keys declared_keys r"
    by (simp add: well_formed_own_keys)
  then show "let plat = browser declared_keys q;
           saved = saveToLocalStorage plat r st
       in resumeData (loadFromLocalStorage plat saved) = r
          \<and> (\<forall>st2 :: builder_state.
                localStorage st2 = localStorage saved \<longrightarrow>
                resumeData (loadFromLocalStorage plat st2) = r)
          \<and> resumeData (mount plat (localStorage saved)) = r"
    unfolding Let_def using a by (intro browser_round_trip) simp_all
next
  assume a: "own_keys keys r
      \<and> \<not> q (localStorage st) ''resumeData'' (json_stringify keys r)"
  then show "let plat = browser keys q;
             saved = saveToLocalStorage plat r st
         in resumeData (loadFromLocalStorage plat saved) = r
            \<and> (\<forall>st2 :: builder_state.
                  localStorage st2 = localStorage saved \<longrightarrow>
                  resumeData (loadFromLocalStorage plat st2) = r)
            \<and> resumeData (mount plat (localStorage saved)) = r"
    unfolding Let_def by (intro browser_round_trip) simp_all
qed

theorem save_then_load_round_trip_witness:
  "well_formed filled_resumeData
   \<and> own_keys declared_keys filled_resumeData
   \<and> resumeData imported_without_projects \<noteq> filled_resumeData
   \<and> resumeData (loadFromLocalStorage (browser declared_keys (\<lambda>store key v. False))
        (saveToLocalStorage (browser declared_keys (\<lambda>store key v. False)) filled_resumeData
           imported_without_projects))
      = filled_resumeData
   \<and> resumeData (mount (browser declared_keys (\<lambda>store key v. False))
        (localStorage (saveToLocalStorage (browser declared_keys (\<lambda>store key v. False))
           filled_resumeData imported_without_projects)))
      = filled_resumeData"
proof -
  have w: "well_formed filled_resumeData"
    by (rule well_formed_filled)
  have o: "own_keys declared_keys filled_resumeData"
    using w by (rule well_formed_own_keys)
  have d: "resumeData imported_without_projects \<noteq> filled_resumeData"
  proof
    assume "resumeData imported_without_projects = filled_resumeData"
    then have "skills (resumeData imported_without_projects) = skills filled_resumeData"
      by simp
    then show False
      by (simp add: resumeData_imported_without_projects initial_resumeData_def
          filled_resumeData_def)
  qed
  show ?thesis
    using save_then_load_round_trip
      [where r = filled_resumeData and q = "\<lambda>store key v. False"
         and st = imported_without_projects and keys = declared_keys] w o d
    unfolding Let_def by blast
qed

subsection \<open>The read boundary\<close>

text \<open>
  C5, as stated, fails: neither the import callback nor the load normalises what it
  reads. A record without a \<^verbatim>\<open>projects\<close> property is installed as it is.
\<close>

theorem read_boundary_normalisation_counterexample:
  "projects (resumeData (onDataImported (initial_resumeData\<lparr> projects := None \<rparr>)
      (initial_state Map.empty))) = None
   \<and> projects (resumeData (mount (sample_platform False)
        [''resumeData'' \<mapsto> no_projects_json])) = None"
proof -
  have ne: "no_projects_json \<noteq> []" "no_projects_json \<noteq> initial_json"
    by (simp_all add: no_projects_json_def initial_json_def)
  have "resumeData (mount (sample_platform False) [''resumeData'' \<mapsto> no_projects_json])
      = initial_resumeData\<lparr> projects := None \<rparr>"
    unfolding mount_def
    by (rule loadFromLocalStorage_parsed[where saved = no_projects_json])
      (simp_all add: initial_state_def sample_platform_def ne)
  then show ?thesis by simp
qed

text \<open>
  C5 (amended). A load or an import installs the record exactly as it was parsed or
  imported, without normalising it: a record without a \<^verbatim>\<open>projects\<close> list keeps none. The
  internal operations do meet the absent list and read it as empty at each use:
  \<^verbatim>\<open>addProject\<close>, \<^verbatim>\<open>updateProject\<close>, \<^verbatim>\<open>removeProject\<close> and the completion score give what
  they give on the same record with an empty \<^verbatim>\<open>projects\<close> list in its place, and after any
  of the three project handlers the list is present.
\<close>

theorem read_boundary_installs_record_as_read:
  fixes st :: builder_state
  shows
  "resumeData (onDataImported d st) = d
   \<and> (localStorage st ''resumeData'' = Some saved \<and> saved \<noteq> [] \<and> JSON_parse plat saved = Some d
        \<longrightarrow> resumeData (loadFromLocalStorage plat st) = d)
   \<and> (let r = resumeData st;
           st0 = st\<lparr> resumeData := r\<lparr> projects := Some (or_empty (projects r)) \<rparr> \<rparr>
       in resumeData (addProject st) = resumeData (addProject st0)
          \<and> resumeData (updateProject index field v st) = resumeData (updateProject index field v st0)
          \<and> resumeData (removeProject index st) = resumeData (removeProject index st0)
          \<and> getCompletionPercentage r = getCompletionPercentage (resumeData st0))
   \<and> projects (resumeData (addProject st)) \<noteq> None
   \<and> projects (resumeData (updateProject index field v st)) \<noteq> None
   \<and> projects (resumeData (removeProject index st)) \<noteq> None"
proof -
  have load: "localStorage st ''resumeData'' = Some saved \<and> saved \<noteq> [] \<and> JSON_parse plat saved = Some d
        \<longrightarrow> resumeData (loadFromLocalStorage plat st) = d"
    using loadFromLocalStorage_parsed by blast
  have oe: "or_empty (Some (or_empty xs)) = or_empty xs" for xs :: "js_object list option"
    by (simp add: or_empty_def)
  have score: "getCompletionPercentage (resumeData st)
      = getCompletionPercentage ((resumeData st)\<lparr> projects := Some (or_empty (projects (resumeData st))) \<rparr>)"
    by (rule score_agree) (simp add: completion_predicates_def or_empty_def split: option.splits)
  show ?thesis
    using load score
    by (simp add: Let_def resumeData_updateProject resumeData_removeProject addProject_def oe)
qed

theorem read_boundary_installs_record_as_read_witness:
  "localStorage (initial_state [''resumeData'' \<mapsto> no_projects_json]) ''resumeData''
     = Some no_projects_json
   \<and> no_projects_json \<noteq> []
   \<and> JSON_parse (sample_platform False) no_projects_json
       = Some (initial_resumeData\<lparr> projects := None \<rparr>)
   \<and> resumeData (loadFromLocalStorage (sample_platform False)
        (initial_state [''resumeData'' \<mapsto> no_projects_json]))
       = initial_resumeData\<lparr> projects := None \<rparr>
   \<and> projects (resumeData (addProject imported_without_projects)) = Some [empty_project]"
proof -
  have h: "localStorage (initial_state [''resumeData'' \<mapsto> no_projects_json]) ''resumeData''
     = Some no_projects_json"
    "no_projects_json \<noteq> []"
    "JSON_parse (sample_platform False) no_projects_json
       = Some (initial_resumeData\<lparr> projects := None \<rparr>)"
    by (simp_all add: initial_state_def sample_platform_def no_projects_json_def initial_json_def)
  have a: "projects (resumeData (addProject imported_without_projects)) = Some [empty_project]"
    by (simp add: addProject_def resumeData_imported_without_projects or_empty_def)
  show ?thesis
    using read_boundary_installs_record_as_read
      [where st = "initial_state [''resumeData'' \<mapsto> no_projects_json]"
         and plat = "sample_platform False" and saved = no_projects_json
         and d = "initial_resumeData\<lparr> projects := None \<rparr>"] h a
    by blast
qed

subsection \<open>Sequences of calls on the experience list\<close>

lemma experience_call_experience:
  "experience (resumeData (call_experience c st)) = experience_step c (experience (resumeData st))"
  by (cases c)
    (simp_all add: resumeData_addExperience resumeData_updateExperience
      resumeData_removeExperience)

lemma experience_run_calls:
  "experience (resumeData (run_calls cs st)) = fold experience_step cs (experience (resumeData st))"
  unfolding run_calls_def
  by (induction cs arbitrary: st) (simp_all add: experience_call_experience)

lemma nth_take_drop_Suc:
  "j < length xs - 1 \<Longrightarrow> i < length xs \<Longrightarrow>
   (take i xs @ drop (Suc i) xs) ! j = (if j < i then xs ! j else xs ! Suc j)"
  by (auto simp: nth_append min_def)

lemma distinct_take_drop_Suc:
  assumes "distinct xs"
  shows "distinct (take i xs @ drop (Suc i) xs)"
proof (cases "i < length xs")
  case True
  have "distinct (take i xs @ xs ! i # drop (Suc i) xs)"
    using assms id_take_nth_drop[OF True] by simp
  then show ?thesis by simp
next
  case False
  with assms show ?thesis by simp
qed

lemma tracked_initial: "tracked es0 es0 (initial_tracker (length es0))"
  by (simp add: tracked_def initial_tracker_def last_updated_def origin_def)

lemma last_updated_other_fields [simp]:
  "last_updated es0 (tr\<lparr> ids := xs \<rparr>) = last_updated es0 tr"
  "last_updated es0 (tr\<lparr> next_id := n \<rparr>) = last_updated es0 tr"
  "last_updated es0 (tr\<lparr> removed := m \<rparr>) = last_updated es0 tr"
  by (simp_all add: last_updated_def fun_eq_iff)

lemma tracked_add:
  assumes "tracked es0 es tr"
  shows "tracked es0 (experience_step AddExperience es) (track AddExperience tr)"
proof -
  have new: "last_updated es0 tr (next_id tr) = empty_experience"
    using assms by (auto simp: tracked_def last_updated_def origin_def)
  show ?thesis
    using assms new unfolding tracked_def
    by (auto simp: nth_append less_Suc_eq)
qed

lemma tracked_update:
  assumes "tracked es0 es tr"
  shows "tracked es0 (experience_step (UpdateExperience index field v) es)
           (track (UpdateExperience index field v) tr)"
proof (cases "0 \<le> index \<and> index < int (length es)")
  case False
  have "length es = length (ids tr)"
    using assms by (simp add: tracked_def)
  with False have "experience_step (UpdateExperience index field v) es = es"
    "track (UpdateExperience index field v) tr = tr"
    by auto
  with assms show ?thesis by simp
next
  case True
  define i where "i = nat index"
  have i: "i < length es" "i < length (ids tr)" and len: "length es = length (ids tr)"
    using True assms by (auto simp: i_def tracked_def)
  define tr' where "tr' = tr\<lparr> last_update := (last_update tr)((ids tr ! i, field) \<mapsto> v) \<rparr>"
  have step: "experience_step (UpdateExperience index field v) es = es[i := (es ! i)(field \<mapsto> v)]"
    "track (UpdateExperience index field v) tr = tr'"
    using True len by (simp_all add: i_def tr'_def)
  have dist: "distinct (ids tr)" and lt: "ids tr ! i < next_id tr"
    and es: "\<And>j. j < length es \<Longrightarrow> es ! j = last_updated es0 tr (ids tr ! j)"
    using assms i by (auto simp: tracked_def)
  have other: "last_updated es0 tr' (ids tr ! j) = last_updated es0 tr (ids tr ! j)"
    if "j < length es" "j \<noteq> i" for j
  proof -
    have "ids tr ! j \<noteq> ids tr ! i"
      using that i dist len by (simp add: nth_eq_iff_index_eq)
    then show ?thesis by (simp add: last_updated_def tr'_def)
  qed
  have same: "last_updated es0 tr' (ids tr ! i) = (es ! i)(field \<mapsto> v)"
    using es[OF i(1)] by (auto simp: last_updated_def tr'_def fun_eq_iff)
  have entries: "\<forall>j < length (es[i := (es ! i)(field \<mapsto> v)]).
      es[i := (es ! i)(field \<mapsto> v)] ! j = last_updated es0 tr' (ids tr' ! j)"
  proof (intro allI impI)
    fix j assume "j < length (es[i := (es ! i)(field \<mapsto> v)])"
    then have j: "j < length es" by simp
    show "es[i := (es ! i)(field \<mapsto> v)] ! j = last_updated es0 tr' (ids tr' ! j)"
    proof (cases "j = i")
      case True
      then show ?thesis using i same by (simp add: tr'_def)
    next
      case False
      then show ?thesis using j other[OF j False] es[OF j] by (simp add: tr'_def)
    qed
  qed
  have fresh: "\<forall>k g. next_id tr' \<le> k \<longrightarrow> last_update tr' (k, g) = None"
    using assms lt by (auto simp: tracked_def tr'_def)
  show ?thesis
    unfolding step tracked_def
    using assms entries fresh by (simp add: tracked_def tr'_def)
qed

lemma tracked_remove:
  assumes "tracked es0 es tr"
  shows "tracked es0 (experience_step (RemoveExperience index) es)
           (track (RemoveExperience index) tr)"
proof (cases "0 \<le> index \<and> index < int (length es)")
  case False
  have "length es = length (ids tr)"
    using assms by (simp add: tracked_def)
  with False have "experience_step (RemoveExperience index) es = es"
    "track (RemoveExperience index) tr = tr"
    by auto
  with assms show ?thesis by simp
next
  case True
  define i where "i = nat index"
  have i: "i < length es" "i < length (ids tr)" and len: "length es = length (ids tr)"
    using True assms by (auto simp: i_def tracked_def)
  define tr' where
    "tr' = tr\<lparr> ids := take i (ids tr) @ drop (Suc i) (ids tr), removed := removed tr + 1 \<rparr>"
  have step: "experience_step (RemoveExperience index) es = take i es @ drop (Suc i) es"
    "track (RemoveExperience index) tr = tr'"
    using True len by (simp_all add: i_def tr'_def)
  have es: "\<And>j. j < length es \<Longrightarrow> es ! j = last_updated es0 tr (ids tr ! j)"
    using assms by (auto simp: tracked_def)
  have lu: "last_updated es0 tr' k = last_updated es0 tr k" for k
    by (simp add: tr'_def)
  have entries: "\<forall>j < length (take i es @ drop (Suc i) es).
      (take i es @ drop (Suc i) es) ! j = last_updated es0 tr' (ids tr' ! j)"
  proof (intro allI impI)
    fix j assume "j < length (take i es @ drop (Suc i) es)"
    then have j: "j < length es - 1" using i by auto
    have "(take i es @ drop (Suc i) es) ! j = (if j < i then es ! j else es ! Suc j)"
      using j i(1) by (rule nth_take_drop_Suc)
    moreover have "ids tr' ! j = (if j < i then ids tr ! j else ids tr ! Suc j)"
      using j i len nth_take_drop_Suc[of j "ids tr" i] by (simp add: tr'_def)
    ultimately show "(take i es @ drop (Suc i) es) ! j = last_updated es0 tr' (ids tr' ! j)"
      using es[of j] es[of "Suc j"] j by (auto simp: lu)
  qed
  have sub: "set (ids tr') \<subseteq> set (ids tr)"
    by (auto simp: tr'_def dest: in_set_takeD in_set_dropD)
  have "distinct (ids tr)"
    using assms by (simp add: tracked_def)
  then have "distinct (take i (ids tr) @ drop (Suc i) (ids tr))"
    by (rule distinct_take_drop_Suc)
  then have "distinct (ids tr')"
    by (simp add: tr'_def)
  moreover have "length (take i es @ drop (Suc i) es) = length (ids tr')"
    using i len by (simp add: tr'_def)
  moreover have "\<forall>k \<in> set (ids tr'). k < next_id tr'"
    using assms sub by (auto simp: tracked_def tr'_def)
  moreover have "length es0 \<le> next_id tr'"
    "\<forall>k g. next_id tr' \<le> k \<longrightarrow> last_update tr' (k, g) = None"
    using assms by (auto simp: tracked_def tr'_def)
  ultimately show ?thesis
    unfolding step tracked_def using entries by blast
qed

lemma tracked_step: "tracked es0 es tr \<Longrightarrow> tracked es0 (experience_step c es) (track c tr)"
  by (cases c) (simp_all only: tracked_add tracked_update tracked_remove)

lemma count_step:
  assumes "length es = length (ids tr)"
  shows "length (experience_step c es) + removed (track c tr)
     = length es + removed tr + adds [c]"
  using assms by (cases c) (auto simp: adds_def)

lemma removed_step: "removed (track c tr) \<le> removed tr + removes [c]"
  by (cases c) (auto simp: removes_def)

lemma adds_Cons: "adds (c # cs) = adds [c] + adds cs"
  by (simp add: adds_def)

lemma removes_Cons: "removes (c # cs) = removes [c] + removes cs"
  by (simp add: removes_def)

lemma tracked_fold:
  "tracked es0 es tr \<Longrightarrow>
   tracked es0 (fold experience_step cs es) (fold track cs tr)
   \<and> length (fold experience_step cs es) + removed (fold track cs tr)
       = length es + removed tr + adds cs
   \<and> removed (fold track cs tr) \<le> removed tr + removes cs"
proof (induction cs arbitrary: es tr)
  case Nil
  then show ?case by (simp add: adds_def removes_def)
next
  case (Cons c cs)
  have t: "tracked es0 (experience_step c es) (track c tr)"
    using Cons.prems by (rule tracked_step)
  have l: "length es = length (ids tr)"
    using Cons.prems by (simp add: tracked_def)
  show ?case
    using Cons.IH[OF t] count_step[OF l, of c] removed_step[of c tr]
      adds_Cons[of c cs] removes_Cons[of c cs]
    by simp
qed


lemma removed_in_range:
  "removes_in_range cs (length (ids tr)) \<Longrightarrow>
   removed (fold track cs tr) = removed tr + removes cs"
proof (induction cs arbitrary: tr)
  case Nil
  then show ?case by (simp add: removes_def)
next
  case (Cons c cs)
  show ?case
  proof (cases c)
    case AddExperience
    with Cons.prems have "removes_in_range cs (length (ids (track c tr)))" by simp
    from Cons.IH[OF this] AddExperience show ?thesis by (simp add: removes_def)
  next
    case (UpdateExperience index field v)
    with Cons.prems have "removes_in_range cs (length (ids (track c tr)))" by simp
    from Cons.IH[OF this] UpdateExperience show ?thesis by (simp add: removes_def)
  next
    case (RemoveExperience index)
    with Cons.prems have r: "0 \<le> index" "index < int (length (ids tr))"
      "removes_in_range cs (length (ids tr) - 1)" by simp_all
    then have "length (ids (track c tr)) = length (ids tr) - 1"
      using RemoveExperience by (auto simp: min_def)
    with r have "removes_in_range cs (length (ids (track c tr)))" by simp
    from Cons.IH[OF this] RemoveExperience r show ?thesis by (simp add: removes_def)
  qed
qed

text \<open>
  C4, as stated, fails: a remove whose index addresses no entry removes nothing, so the
  length is not the number of adds minus the number of removes.
\<close>

theorem experience_length_counterexample:
  "experience (resumeData (initial_state Map.empty)) = []
   \<and> length (experience (resumeData
        (run_calls [RemoveExperience 0, AddExperience] (initial_state Map.empty)))) = 1
   \<and> adds [RemoveExperience 0, AddExperience] = 1
   \<and> removes [RemoveExperience 0, AddExperience] = 1
   \<and> int (length (experience (resumeData
        (run_calls [RemoveExperience 0, AddExperience] (initial_state Map.empty)))))
      \<noteq> int (adds [RemoveExperience 0, AddExperience])
        - int (removes [RemoveExperience 0, AddExperience])"
  by (simp add: experience_run_calls initial_state_def initial_resumeData_def adds_def
      removes_def)

text \<open>
  C4 (amended). For every sequence of \<^verbatim>\<open>addExperience\<close>, \<^verbatim>\<open>updateExperience\<close> and
  \<^verbatim>\<open>removeExperience\<close> calls from any record, the length of the resulting experience list
  is the initial length plus the number of adds minus the number of removes whose index
  addressed an entry when they were called (so minus the number of removes, when each of
  them did). Each surviving entry holds, in each field, the value of the last update
  applied to that entry and field, and where none was applied the value the entry had
  when it appeared (for an added entry the empty string in its four fields).
\<close>

theorem experience_calls_length_and_last_update:
  fixes st :: builder_state
  shows
  "(let es0 = experience (resumeData st);
        es = experience (resumeData (run_calls calls st));
        tr = fold track calls (initial_tracker (length es0))
    in int (length es) = int (length es0) + int (adds calls) - int (removed tr)
       \<and> removed tr \<le> removes calls
       \<and> (removes_in_range calls (length es0) \<longrightarrow>
            int (length es) = int (length es0) + int (adds calls) - int (removes calls))
       \<and> length (ids tr) = length es
       \<and> (\<forall>j < length es. \<forall>field.
            (es ! j) field =
              (case last_update tr (ids tr ! j, field) of
                 Some v \<Rightarrow> Some v
               | None \<Rightarrow> origin es0 (ids tr ! j) field)))"
proof -
  define es0 where "es0 = experience (resumeData st)"
  define tr where "tr = fold track calls (initial_tracker (length es0))"
  define es where "es = fold experience_step calls es0"
  have run: "experience (resumeData (run_calls calls st)) = es"
    by (simp add: es_def es0_def experience_run_calls)
  have f: "tracked es0 es tr"
    "length es + removed tr = length es0 + adds calls"
    "removed tr \<le> removes calls"
    using tracked_fold[OF tracked_initial, of es0 calls]
    by (simp_all add: es_def tr_def initial_tracker_def)
  have len: "int (length es) = int (length es0) + int (adds calls) - int (removed tr)"
    using f(2) by linarith
  have inr: "removes_in_range calls (length es0) \<longrightarrow>
      int (length es) = int (length es0) + int (adds calls) - int (removes calls)"
  proof
    assume "removes_in_range calls (length es0)"
    then have "removed tr = removes calls"
      using removed_in_range[of calls "initial_tracker (length es0)"]
      by (simp add: tr_def initial_tracker_def)
    with len show "int (length es) = int (length es0) + int (adds calls) - int (removes calls)"
      by simp
  qed
  have ids: "length (ids tr) = length es"
    using f(1) by (simp add: tracked_def)
  have fields: "\<forall>j < length es. \<forall>field.
      (es ! j) field =
        (case last_update tr (ids tr ! j, field) of
           Some v \<Rightarrow> Some v
         | None \<Rightarrow> origin es0 (ids tr ! j) field)"
    using f(1) by (simp add: tracked_def last_updated_def)
  show ?thesis
    unfolding Let_def run es0_def[symmetric] tr_def[symmetric]
    using len f(3) inr ids fields by simp
qed

theorem experience_calls_length_and_last_update_witness:
  "removes_in_range sample_calls (length (experience (resumeData (initial_state Map.empty))))
   \<and> length (experience (resumeData (run_calls sample_calls (initial_state Map.empty)))) = 1
   \<and> (experience (resumeData (run_calls sample_calls (initial_state Map.empty))) ! 0) ''title''
       = Some ''QA''
   \<and> (experience (resumeData (run_calls sample_calls (initial_state Map.empty))) ! 0) ''company''
       = Some []"
proof -
  define es where "es = experience (resumeData (run_calls sample_calls (initial_state Map.empty)))"
  define tr where "tr = fold track sample_calls (initial_tracker 0)"
  have e: "experience (resumeData (initial_state Map.empty)) = []"
    by (simp add: initial_state_def initial_resumeData_def)
  have rir: "removes_in_range sample_calls 0"
    by (simp add: sample_calls_def)
  have cnt: "adds sample_calls = 2" "removes sample_calls = 1"
    by (simp_all add: sample_calls_def adds_def removes_def)
  have tr: "last_update tr (ids tr ! 0, ''title'') = Some ''QA''"
    "last_update tr (ids tr ! 0, ''company'') = None"
    "origin [] (ids tr ! 0) ''company'' = Some []"
    by (simp_all add: tr_def sample_calls_def initial_tracker_def origin_def
        empty_experience_def)
  note T = experience_calls_length_and_last_update
      [where st = "initial_state Map.empty" and calls = sample_calls,
       unfolded Let_def e list.size es_def[symmetric] tr_def[symmetric]]
  from T rir have "int (length es) = int 0 + int (adds sample_calls) - int (removes sample_calls)"
    by blast
  then have len: "length es = 1"
    by (simp add: cnt)
  from T have fields: "\<forall>j < length es. \<forall>field.
            (es ! j) field =
              (case last_update tr (ids tr ! j, field) of
                 Some v \<Rightarrow> Some v
               | None \<Rightarrow> origin [] (ids tr ! j) field)"
    by blast
  have pos: "0 < length es"
    using len by simp
  have "(es ! 0) ''title'' = Some ''QA''" "(es ! 0) ''company'' = Some []"
    using fields[rule_format, OF pos, of "''title''"]
      fields[rule_format, OF pos, of "''company''"]
    by (simp_all only: tr option.case)
  with len rir show ?thesis
    by (simp add: e es_def)
qed

subsection \<open>The autosave timer\<close>

lemma timers_setResumeData:
  "timers (setResumeData f st) =
     filter (\<lambda>t. Some (timer_id t) \<noteq> autosave_handle st) (timers st)
       @ [Timer (next_timer_id st) (clock st + 2000) (SaveCallback (f (resumeData st)))]"
  by (cases "autosave_handle st")
    (simp_all add: setResumeData_def autosave_effect_def clearTimeout_def setTimeout_def Let_def)

lemma autosave_handle_setResumeData:
  "autosave_handle (setResumeData f st) = Some (next_timer_id st)"
  by (cases "autosave_handle st")
    (simp_all add: setResumeData_def autosave_effect_def clearTimeout_def setTimeout_def Let_def)

lemma clock_setResumeData [simp]: "clock (setResumeData f st) = clock st"
  by (cases "autosave_handle st")
    (simp_all add: setResumeData_def autosave_effect_def clearTimeout_def setTimeout_def Let_def)

lemma setItem_calls_setResumeData [simp]:
  "setItem_calls (setResumeData f st) = setItem_calls st"
  by (cases "autosave_handle st")
    (simp_all add: setResumeData_def autosave_effect_def clearTimeout_def setTimeout_def Let_def)

lemma waiting_setResumeData:
  assumes "waiting st c d"
  shows "waiting (setResumeData f st) c (c + 2000)"
  using assms
  by (auto simp: waiting_def timers_setResumeData autosave_handle_setResumeData)

lemma waiting_initial:
  "waiting (autosave_effect (initial_state store)) 0 2000"
  by (simp add: waiting_def autosave_effect_def initial_state_def setTimeout_def Let_def)

lemma autosave_effect_as_setResumeData:
  "autosave_effect st = setResumeData (\<lambda>d. d) st"
  by (simp add: setResumeData_def)

lemma waiting_mount: "waiting (mount plat store) 0 2000"
proof -
  let ?s = "autosave_effect (initial_state store)"
  have w: "waiting ?s 0 2000" by (rule waiting_initial)
  have "waiting (setResumeData (\<lambda>_. d) ?s) 0 (0 + 2000)" for d
    using w by (rule waiting_setResumeData)
  then have after: "waiting ((setResumeData (\<lambda>_. d) ?s)\<lparr> toasts := ts \<rparr>) 0 2000" for d ts
    by (simp add: waiting_def)
  have err: "waiting (?s\<lparr> console_errors := es \<rparr>) 0 2000" for es
    using w by (simp add: waiting_def)
  show ?thesis
    unfolding mount_def loadFromLocalStorage_def Let_def
    using w after err by (simp split: option.splits)
qed

lemma advance_waiting_before:
  assumes "waiting st c d" "t < d"
  shows "advance plat t st = st\<lparr> clock := max c t \<rparr>"
proof -
  obtain h where "timers st = [Timer h d (SaveCallback (resumeData st))]" "clock st = c"
    using assms(1) by (auto simp: waiting_def)
  then show ?thesis
    using assms(2) by (subst advance.simps) simp
qed

lemma waiting_advance_before:
  assumes "waiting st c d" "t < d"
  shows "waiting (advance plat t st) (max c t) d"
    and "resumeData (advance plat t st) = resumeData st"
  using assms by (simp_all add: advance_waiting_before[OF assms] waiting_def)

lemma advance_no_timers:
  "timers st = [] \<Longrightarrow> advance plat t st = st\<lparr> clock := max (clock st) t \<rparr>"
  by (subst advance.simps) simp

lemma setItem_calls_advance_only_clear:
  assumes "timers st = [Timer n e ClearSavingCallback]"
  shows "setItem_calls (advance plat t st) = setItem_calls st"
proof (cases "e \<le> t")
  case True
  have "advance plat t st = advance plat t (run_timer plat (Timer n e ClearSavingCallback) st)"
    using assms True by (subst advance.simps) simp
  also have "setItem_calls \<dots> = setItem_calls st"
    using assms by (subst advance_no_timers) (simp_all add: run_timer_def)
  finally show ?thesis .
next
  case False
  then show ?thesis
    using assms by (subst advance.simps) simp
qed

lemma advance_waiting_fires:
  assumes "waiting st c d" "c \<le> d" "d \<le> t"
  shows "setItem_calls (advance plat t st)
     = [(d, ''resumeData'', JSON_stringify plat (resumeData st))]"
proof -
  obtain h where tm: "timers st = [Timer h d (SaveCallback (resumeData st))]"
    and c: "clock st = c" and log: "setItem_calls st = []"
    using assms(1) by (auto simp: waiting_def)
  let ?tm = "Timer h d (SaveCallback (resumeData st))"
  let ?st = "st\<lparr> timers := [], clock := d \<rparr>"
  have run: "run_timer plat ?tm st = saveToLocalStorage plat (resumeData st) ?st"
    using tm c assms(2) by (simp add: run_timer_def max_def)
  have adv: "advance plat t st = advance plat t (saveToLocalStorage plat (resumeData st) ?st)"
    using tm assms(3) run by (subst advance.simps) simp
  show ?thesis
  proof (cases "quota_exceeded plat (localStorage ?st) ''resumeData''
      (JSON_stringify plat (resumeData st))")
    case True
    have s: "saveToLocalStorage plat (resumeData st) ?st =
       ?st\<lparr> isSaving := False,
           setItem_calls := setItem_calls ?st @ [(clock ?st, ''resumeData'', JSON_stringify plat (resumeData st))],
           toasts := toasts ?st @ [ToastError ''Failed to save data''] \<rparr>"
      by (rule saveToLocalStorage_rejected[OF True])
    show ?thesis
      unfolding adv s by (subst advance_no_timers) (simp_all add: log)
  next
    case False
    have s: "saveToLocalStorage plat (resumeData st) ?st =
       ?st\<lparr> isSaving := True,
           setItem_calls := setItem_calls ?st @ [(clock ?st, ''resumeData'', JSON_stringify plat (resumeData st))],
           localStorage := (localStorage ?st)(''resumeData'' \<mapsto> JSON_stringify plat (resumeData st)),
           lastSaved := Some (clock ?st),
           timers := timers ?st @ [Timer (next_timer_id ?st) (clock ?st + 500) ClearSavingCallback],
           next_timer_id := next_timer_id ?st + 1 \<rparr>"
      by (rule saveToLocalStorage_accepted[OF False])
    show ?thesis
      unfolding adv s
      by (subst setItem_calls_advance_only_clear[where n = "next_timer_id st" and e = "d + 500"])
        (simp_all add: log)
  qed
qed

lemma three_changes_waiting:
  "waiting (setResumeData f3 (advance plat 1000 (setResumeData f2 (advance plat 500
      (setResumeData f1 (advance plat 0 (mount plat store))))))) 1000 3000
   \<and> resumeData (setResumeData f3 (advance plat 1000 (setResumeData f2 (advance plat 500
      (setResumeData f1 (advance plat 0 (mount plat store)))))))
     = f3 (f2 (f1 (resumeData (mount plat store))))"
proof -
  define s0 where "s0 = advance plat 0 (mount plat store)"
  define s1 where "s1 = advance plat 500 (setResumeData f1 s0)"
  define s2 where "s2 = advance plat 1000 (setResumeData f2 s1)"
  have m: "waiting (mount plat store) 0 2000"
    by (rule waiting_mount)
  have w0: "waiting s0 0 2000" and r0: "resumeData s0 = resumeData (mount plat store)"
    using waiting_advance_before[OF m, of 0 plat] by (simp_all add: s0_def)
  have c1: "waiting (setResumeData f1 s0) 0 2000"
    using waiting_setResumeData[OF w0, of f1] by simp
  have w1: "waiting s1 500 2000" and r1: "resumeData s1 = f1 (resumeData (mount plat store))"
    using waiting_advance_before[OF c1, of 500 plat] r0 by (simp_all add: s1_def)
  have c2: "waiting (setResumeData f2 s1) 500 2500"
    using waiting_setResumeData[OF w1, of f2] by simp
  have w2: "waiting s2 1000 2500"
    and r2: "resumeData s2 = f2 (f1 (resumeData (mount plat store)))"
    using waiting_advance_before[OF c2, of 1000 plat] r1 by (simp_all add: s2_def)
  have c3: "waiting (setResumeData f3 s2) 1000 3000"
    using waiting_setResumeData[OF w2, of f3] by simp
  show ?thesis
    using c3 r2 by (simp add: s0_def s1_def s2_def)
qed

text \<open>
  C2. Every change of the record clears the timer the autosave effect had set and sets a
  new one, 2000 later, whose callback saves the record as changed. So with changes at
  times 0, 500 and 1000, up to any time before 3000 nothing has been written, and at any
  time from 3000 on exactly one write has been made: at 3000, of the record as it was
  after the change at 1000.
\<close>

theorem autosave_debounce_single_write:
  fixes st :: builder_state
  shows
  "timers (setResumeData f st) =
     filter (\<lambda>t. Some (timer_id t) \<noteq> autosave_handle st) (timers st)
       @ [Timer (next_timer_id st) (clock st + 2000) (SaveCallback (f (resumeData st)))]
   \<and> autosave_handle (setResumeData f st) = Some (next_timer_id st)
   \<and> (t < 3000 \<longrightarrow> setItem_calls (three_changes plat store f1 f2 f3 t) = [])
   \<and> (3000 \<le> t \<longrightarrow>
        setItem_calls (three_changes plat store f1 f2 f3 t) =
          [(3000, ''resumeData'',
            JSON_stringify plat (f3 (f2 (f1 (resumeData (mount plat store))))))])"
proof -
  define s3 where "s3 = setResumeData f3 (advance plat 1000 (setResumeData f2
      (advance plat 500 (setResumeData f1 (advance plat 0 (mount plat store))))))"
  have w: "waiting s3 1000 3000"
    and r: "resumeData s3 = f3 (f2 (f1 (resumeData (mount plat store))))"
    using three_changes_waiting[of f3 plat f2 f1 store] by (simp_all add: s3_def)
  have run: "three_changes plat store f1 f2 f3 t = advance plat t s3"
    by (simp add: three_changes_def s3_def)
  have before: "setItem_calls (three_changes plat store f1 f2 f3 t) = []" if "t < 3000"
  proof -
    have "advance plat t s3 = s3\<lparr> clock := max 1000 t \<rparr>"
      using w that by (rule advance_waiting_before)
    moreover have "setItem_calls s3 = []"
      using w by (simp add: waiting_def)
    ultimately show ?thesis by (simp add: run)
  qed
  have after: "setItem_calls (three_changes plat store f1 f2 f3 t) =
          [(3000, ''resumeData'',
            JSON_stringify plat (f3 (f2 (f1 (resumeData (mount plat store))))))]"
    if "3000 \<le> t"
    using advance_waiting_fires[OF w _ that, of plat] by (simp add: run r)
  show ?thesis
    using before after timers_setResumeData[of f st] autosave_handle_setResumeData[of f st]
    by blast
qed

lemma handlePersonalInfoChange_name:
  "handlePersonalInfoChange ''name'' v = setResumeData (type_name v)"
  by (simp add: handlePersonalInfoChange_def type_name_def[abs_def])

lemma mount_empty_store: "resumeData (mount plat Map.empty) = initial_resumeData"
  by (simp add: mount_def loadFromLocalStorage_def initial_state_def)

lemma typed_three_times:
  "type_name ''Ali'' (type_name ''Al'' (type_name ''A'' initial_resumeData)) = typed_resumeData"
  by (simp add: type_name_def spread_set_def typed_resumeData_def)

lemma typed_not_initial:
  "typed_resumeData \<noteq> initial_resumeData"
  "typed_resumeData \<noteq> initial_resumeData\<lparr> projects := None \<rparr>"
proof -
  have t: "personalInfo typed_resumeData ''name'' = Some ''Ali''"
    by (simp add: typed_resumeData_def)
  have i: "personalInfo initial_resumeData ''name'' = Some []"
    by (simp add: initial_resumeData_def personal_fields_def)
  have n: "personalInfo (initial_resumeData\<lparr> projects := None \<rparr>) ''name'' = Some []"
    by (simp add: initial_resumeData_def personal_fields_def)
  show "typed_resumeData \<noteq> initial_resumeData"
  proof
    assume "typed_resumeData = initial_resumeData"
    with t i show False by simp
  qed
  show "typed_resumeData \<noteq> initial_resumeData\<lparr> projects := None \<rparr>"
  proof
    assume "typed_resumeData = initial_resumeData\<lparr> projects := None \<rparr>"
    with t n show False by simp
  qed
qed

theorem autosave_debounce_single_write_witness:
  "(2999::nat) < 3000
   \<and> setItem_calls (three_changes (sample_platform False) Map.empty
        (type_name ''A'') (type_name ''Al'') (type_name ''Ali'') 2999) = []
   \<and> (3000::nat) \<le> 3000
   \<and> setItem_calls (three_changes (sample_platform False) Map.empty
        (type_name ''A'') (type_name ''Al'') (type_name ''Ali'') 3000)
      = [(3000, ''resumeData'', typed_json)]"
proof -
  have j: "JSON_stringify (sample_platform False)
      (type_name ''Ali'' (type_name ''Al'' (type_name ''A''
        (resumeData (mount (sample_platform False) Map.empty))))) = typed_json"
    by (simp add: mount_empty_store typed_three_times sample_platform_def typed_not_initial)
  show ?thesis
    using autosave_debounce_single_write
      [where plat = "sample_platform False" and store = Map.empty
         and ?f1.0 = "type_name ''A''" and ?f2.0 = "type_name ''Al''"
         and ?f3.0 = "type_name ''Ali''" and t = 2999]
      autosave_debounce_single_write
      [where plat = "sample_platform False" and store = Map.empty
         and ?f1.0 = "type_name ''A''" and ?f2.0 = "type_name ''Al''"
         and ?f3.0 = "type_name ''Ali''" and t = 3000]
    unfolding j by simp
qed

subsection \<open>The platform of the examples\<close>

lemma well_formed_samples:
  "well_formed initial_resumeData"
  "well_formed (initial_resumeData\<lparr> projects := None \<rparr>)"
  "well_formed typed_resumeData"
proof -
  have d: "dom (personalInfo initial_resumeData) = set personal_fields"
    by (simp add: initial_resumeData_def dom_map_of_conv_image_fst image_image)
  have n: "''name'' \<in> set personal_fields"
    by (simp add: personal_fields_def)
  have e: "experience initial_resumeData = []" "education initial_resumeData = []"
    "projects initial_resumeData = Some []"
    by (simp_all add: initial_resumeData_def)
  show "well_formed initial_resumeData"
    "well_formed (initial_resumeData\<lparr> projects := None \<rparr>)"
    using d e by (simp_all add: well_formed_def or_empty_def)
  show "well_formed typed_resumeData"
    using d e n by (auto simp: well_formed_def or_empty_def typed_resumeData_def)
qed

lemma sample_texts_differ:
  "initial_json \<noteq> no_projects_json" "initial_json \<noteq> typed_json"
  "no_projects_json \<noteq> typed_json"
  by (simp_all add: initial_json_def no_projects_json_def typed_json_def)

lemma no_projects_not_initial:
  "initial_resumeData\<lparr> projects := None \<rparr> \<noteq> initial_resumeData"
proof
  assume "initial_resumeData\<lparr> projects := None \<rparr> = initial_resumeData"
  then have "projects (initial_resumeData\<lparr> projects := None \<rparr>) = projects initial_resumeData"
    by simp
  then show False
    by (simp add: initial_resumeData_def)
qed

text \<open>
  The platform of the examples answers for its three records and their texts as the
  modelled browser does.
\<close>

lemma sample_platform_excerpt:
  "JSON_stringify (sample_platform full) initial_resumeData
     = JSON_stringify (browser declared_keys q) initial_resumeData"
  "JSON_stringify (sample_platform full) (initial_resumeData\<lparr> projects := None \<rparr>)
     = JSON_stringify (browser declared_keys q) (initial_resumeData\<lparr> projects := None \<rparr>)"
  "JSON_stringify (sample_platform full) typed_resumeData
     = JSON_stringify (browser declared_keys q) typed_resumeData"
  "JSON_parse (sample_platform full) initial_json
     = JSON_parse (browser declared_keys q) initial_json"
  "JSON_parse (sample_platform full) no_projects_json
     = JSON_parse (browser declared_keys q) no_projects_json"
  "JSON_parse (sample_platform full) typed_json
     = JSON_parse (browser declared_keys q) typed_json"
proof -
  have p: "json_parse initial_json = Some initial_resumeData"
    "json_parse no_projects_json = Some (initial_resumeData\<lparr> projects := None \<rparr>)"
    "json_parse typed_json = Some typed_resumeData"
    using json_parse_json_stringify[OF well_formed_own_keys[OF well_formed_samples(1)]]
      json_parse_json_stringify[OF well_formed_own_keys[OF well_formed_samples(2)]]
      json_parse_json_stringify[OF well_formed_own_keys[OF well_formed_samples(3)]]
    by (simp_all only: printed_initial printed_no_projects printed_typed)
  show "JSON_stringify (sample_platform full) initial_resumeData
     = JSON_stringify (browser declared_keys q) initial_resumeData"
    by (simp add: sample_platform_def browser_def printed_initial)
  show "JSON_stringify (sample_platform full) (initial_resumeData\<lparr> projects := None \<rparr>)
     = JSON_stringify (browser declared_keys q) (initial_resumeData\<lparr> projects := None \<rparr>)"
    by (simp add: sample_platform_def browser_def printed_no_projects no_projects_not_initial)
  show "JSON_stringify (sample_platform full) typed_resumeData
     = JSON_stringify (browser declared_keys q) typed_resumeData"
    by (simp add: sample_platform_def browser_def printed_typed typed_not_initial)
  show "JSON_parse (sample_platform full) initial_json
     = JSON_parse (browser declared_keys q) initial_json"
    by (simp add: sample_platform_def browser_def p)
  show "JSON_parse (sample_platform full) no_projects_json
     = JSON_parse (browser declared_keys q) no_projects_json"
    using sample_texts_differ by (simp add: sample_platform_def browser_def p)
  show "JSON_parse (sample_platform full) typed_json
     = JSON_parse (browser declared_keys q) typed_json"
    using sample_texts_differ by (simp add: sample_platform_def browser_def p)
qed

end
